theory Spec2Isabelle
  imports Complex_Main "HOL-Library.AList"
begin

section \<open>The dataset pipeline of \<^verbatim>\<open>dataset.py\<close>\<close>

text \<open>
  The script lists a directory of images, shuffles and splits the list, and for every image
  proposes regions with OpenCV, writes one crop per region, copies the image and writes
  one annotation line per region, numbering the regions with a global counter.

  What OpenCV and the file system do is taken as data:
  \<^item> \<^verbatim>\<open>cv2.imread\<close> is a function from paths to decoded images, \<open>None\<close> for a file
    that cannot be decoded (as \<^verbatim>\<open>cv2.imread\<close> returns \<^verbatim>\<open>None\<close>);
  \<^item> a decoded image is its \<^verbatim>\<open>shape\<close> and the rectangles \<^verbatim>\<open>cv2.boundingRect\<close> gives
    for the contours that \<^verbatim>\<open>cv2.findContours\<close> finds in its Canny edge map, in that order;
  \<^item> writing a file, copying a file and \<^verbatim>\<open>cv2.imwrite\<close> of a crop that is not empty
    succeed, and each is recorded as an event in a trace, in the order the script performs
    them; \<^verbatim>\<open>cv2.imwrite\<close> of an empty crop raises \<^verbatim>\<open>cv2.error\<close>;
  \<^item> a Python \<^verbatim>\<open>float\<close> operation is the exact operation on rationals followed by a rounding
    function \<open>rnd\<close>, a parameter of the model.
  An exception ends the run: the functions return \<open>Inl\<close> of the error. The creation of
  the directories at the start and the writing of \<^verbatim>\<open>dataset.yaml\<close> at the end are left out.
\<close>

subsection \<open>Strings and paths\<close>

text \<open>\<^verbatim>\<open>str(n)\<close> of a non-negative integer, as the f-strings format \<^verbatim>\<open>idx + 1\<close>.\<close>

definition digit_char :: "nat \<Rightarrow> char" where
  "digit_char d = ''0123456789'' ! d"

fun str_nat :: "nat \<Rightarrow> string" where
  "str_nat n =
     (if n < 10 then [digit_char n] else str_nat (n div 10) @ [digit_char (n mod 10)])"

declare str_nat.simps [simp del]

text \<open>\<^verbatim>\<open>s.endswith(suffix)\<close> and \<^verbatim>\<open>s.endswith((suffix1, suffix2, ...))\<close>.\<close>

definition endswith :: "string \<Rightarrow> string \<Rightarrow> bool" where
  "endswith s suf \<longleftrightarrow>
     length suf \<le> length s \<and> drop (length s - length suf) s = suf"

definition endswith_any :: "string \<Rightarrow> string list \<Rightarrow> bool" where
  "endswith_any s sufs \<longleftrightarrow> list_ex (endswith s) sufs"

text \<open>\<^verbatim>\<open>s.rfind(c)\<close> for a single character: the last index of \<open>c\<close>, or \<open>-1\<close>.\<close>

fun rfind :: "string \<Rightarrow> char \<Rightarrow> int" where
  "rfind [] c = -1"
| "rfind (a # s) c =
     (let r = rfind s c in if r \<ge> 0 then r + 1 else if a = c then 0 else -1)"

text \<open>
  \<^verbatim>\<open>os.path.splitext(p)[0]\<close> (posixpath): the path up to its last dot, when that dot is in
  the last component and a character other than a dot stands between the start of that
  component and it; the whole path otherwise.
\<close>

definition splitext_root :: "string \<Rightarrow> string" where
  "splitext_root p =
     (let sepIndex = rfind p CHR ''/'';
          dotIndex = rfind p CHR ''.''
      in if dotIndex > sepIndex \<and>
            list_ex (\<lambda>c. c \<noteq> CHR ''.'')
              (take (nat (dotIndex - (sepIndex + 1))) (drop (nat (sepIndex + 1)) p))
         then take (nat dotIndex) p
         else p)"

text \<open>\<^verbatim>\<open>os.path.join(a, b)\<close> (posixpath) of two components.\<close>

definition path_join :: "string \<Rightarrow> string \<Rightarrow> string" where
  "path_join a b =
     (if b \<noteq> [] \<and> hd b = CHR ''/'' then b
      else if a = [] \<or> last a = CHR ''/'' then a @ b
      else a @ ''/'' @ b)"

subsection \<open>Directories\<close>

definition image_dir :: string where
  "image_dir = ''/content/sample_data/images''"

definition dataset_dir :: string where
  "dataset_dir = ''/content/dataset''"

definition train_images_dir :: string where
  "train_images_dir = path_join dataset_dir ''images/train''"

definition val_images_dir :: string where
  "val_images_dir = path_join dataset_dir ''images/val''"

definition train_labels_dir :: string where
  "train_labels_dir = path_join dataset_dir ''labels/train''"

definition val_labels_dir :: string where
  "val_labels_dir = path_join dataset_dir ''labels/val''"

definition unknown_objects_dir :: string where
  "unknown_objects_dir = path_join dataset_dir ''unknown_objects2''"

subsection \<open>Slices\<close>

text \<open>
  A bound \<open>i\<close> of a slice of a sequence of length \<open>n\<close>: a negative index counts from the
  end, and an index out of range is clipped. \<^verbatim>\<open>xs[:i]\<close> and \<^verbatim>\<open>xs[i:]\<close> are the elements
  before and from this bound, and \<^verbatim>\<open>xs[i:j]\<close> has \<open>slice_len n i j\<close> elements, none when the
  second bound is not after the first.
\<close>

definition slice_bound :: "nat \<Rightarrow> int \<Rightarrow> nat" where
  "slice_bound n i = (if i < 0 then nat (max 0 (int n + i)) else min n (nat i))"

definition slice_to :: "'a list \<Rightarrow> int \<Rightarrow> 'a list" where
  "slice_to xs i = take (slice_bound (length xs) i) xs"

definition slice_from :: "'a list \<Rightarrow> int \<Rightarrow> 'a list" where
  "slice_from xs i = drop (slice_bound (length xs) i) xs"

definition slice_len :: "nat \<Rightarrow> int \<Rightarrow> int \<Rightarrow> nat" where
  "slice_len n i j = slice_bound n j - slice_bound n i"

subsection \<open>Images, regions and errors\<close>

type_synonym rect = "int \<times> int \<times> int \<times> int"

text \<open>
  A decoded image: \<^verbatim>\<open>image.shape\<close>, which is (height, width, channels), and the bounding
  rectangles (x, y, w, h) of its contours.
\<close>

record image =
  shape :: "nat \<times> nat \<times> nat"
  contour_rects :: "rect list"

datatype error =
    Cv2_error
  | Type_error
  | Attribute_error
  | Zero_division_error

subsection \<open>\<^verbatim>\<open>detect_objects\<close>\<close>

text \<open>
  The loop over the contours, with \<open>detected_objects\<close> as the accumulator.
\<close>

fun detect_loop :: "rect list \<Rightarrow> rect list \<Rightarrow> rect list" where
  "detect_loop [] detected_objects = detected_objects"
| "detect_loop ((x, y, w, h) # contours) detected_objects =
     detect_loop contours
       (if w > 20 \<and> h > 20 then detected_objects @ [(x, y, w, h)] else detected_objects)"

text \<open>
  \<^verbatim>\<open>cv2.cvtColor\<close> raises \<^verbatim>\<open>cv2.error\<close> on the \<^verbatim>\<open>None\<close> that \<^verbatim>\<open>cv2.imread\<close> returns for
  an undecodable file.
\<close>

definition detect_objects :: "(string \<Rightarrow> image option) \<Rightarrow> string \<Rightarrow> error + rect list" where
  "detect_objects imread image_path =
     (case imread image_path of
        None \<Rightarrow> Inl Cv2_error
      | Some img \<Rightarrow> Inr (detect_loop (contour_rects img) []))"

subsection \<open>Floating point\<close>

text \<open>
  Each operation on Python floats is the exact operation followed by the rounding \<open>rnd\<close>.
  An \<^verbatim>\<open>int\<close> that meets a \<^verbatim>\<open>float\<close> is converted first; \<^verbatim>\<open>int / int\<close> is the rounded
  exact quotient. The divisor is not zero where these are used: the callers raise before.
\<close>

definition float_of_int :: "(rat \<Rightarrow> rat) \<Rightarrow> int \<Rightarrow> rat" where
  "float_of_int rnd i = rnd (of_int i)"

definition int_truediv :: "(rat \<Rightarrow> rat) \<Rightarrow> int \<Rightarrow> int \<Rightarrow> rat" where
  "int_truediv rnd a b = rnd (of_int a / of_int b)"

definition float_add :: "(rat \<Rightarrow> rat) \<Rightarrow> rat \<Rightarrow> rat \<Rightarrow> rat" where
  "float_add rnd a b = rnd (a + b)"

definition float_mul :: "(rat \<Rightarrow> rat) \<Rightarrow> rat \<Rightarrow> rat \<Rightarrow> rat" where
  "float_mul rnd a b = rnd (a * b)"

definition float_truediv :: "(rat \<Rightarrow> rat) \<Rightarrow> rat \<Rightarrow> rat \<Rightarrow> rat" where
  "float_truediv rnd a b = rnd (a / b)"

text \<open>\<^verbatim>\<open>int(f)\<close> of a float truncates towards zero.\<close>

definition int_of_float :: "rat \<Rightarrow> int" where
  "int_of_float q = (if q \<ge> 0 then \<lfloor>q\<rfloor> else \<lceil>q\<rceil>)"

text \<open>
  What the proofs use of the rounding: it is monotone, and it leaves every multiple of
  1/8 with a numerator of at most 53 bits as it is. Rounding to the nearest binary64
  number is such a function.
\<close>

definition float_like :: "(rat \<Rightarrow> rat) \<Rightarrow> bool" where
  "float_like rnd \<longleftrightarrow>
     mono rnd \<and> (\<forall>k::int. \<bar>k\<bar> \<le> 2 ^ 53 \<longrightarrow> rnd (of_int k / 8) = of_int k / 8)"

text \<open>The binary64 number that the literal \<^verbatim>\<open>0.8\<close> denotes.\<close>

definition split_ratio :: rat where
  "split_ratio = 3602879701896397 / 4503599627370496"

subsection \<open>The state of a run\<close>

text \<open>One line \<^verbatim>\<open>{class_id} {x_center} {y_center} {box_width} {box_height}\<close>.\<close>

record annotation =
  ann_class_id :: nat
  ann_x_center :: rat
  ann_y_center :: rat
  ann_box_width :: rat
  ann_box_height :: rat

text \<open>
  The effects on the file system, in the order they happen:
  \<^item> \<open>Imwrite path src r\<close>: \<^verbatim>\<open>cv2.imwrite(path, cropped)\<close> where \<open>cropped\<close> is the
    part \<open>r\<close> (left column, top row, width, height) of the image read from \<open>src\<close>;
  \<^item> \<open>Copy src dir\<close>: \<^verbatim>\<open>shutil.copy(src, dir)\<close>;
  \<^item> \<open>Open_w path\<close>: \<^verbatim>\<open>open(path, "w")\<close>, which creates or empties the file;
  \<^item> \<open>Write path line\<close>: \<^verbatim>\<open>f.write\<close> of one line to the file opened at \<open>path\<close>.
\<close>

datatype event =
    Imwrite string string rect
  | Copy string string
  | Open_w string
  | Write string annotation

text \<open>
  The globals \<^verbatim>\<open>class_counter\<close> and \<^verbatim>\<open>class_map\<close> (a \<^verbatim>\<open>dict\<close>, which keeps the order of
  first insertion: an association list updated in place), and the trace of effects.
\<close>

record state =
  class_counter :: nat
  class_map :: "(string \<times> nat) list"
  trace :: "event list"

definition initial_state :: state where
  "initial_state = \<lparr>class_counter = 0, class_map = [], trace = []\<rparr>"

subsection \<open>\<^verbatim>\<open>save_cropped_objects\<close>\<close>

text \<open>
  The part of an image of the given width and height that \<^verbatim>\<open>image[y:y+h, x:x+w]\<close> is, as
  its left column, top row, width and height: numpy clips the rows and the columns as
  slices are clipped. It is empty when it has no row or no column.
\<close>

definition cropped_region :: "nat \<Rightarrow> nat \<Rightarrow> rect \<Rightarrow> rect" where
  "cropped_region width height = (\<lambda>(x, y, w, h).
     (int (slice_bound width x), int (slice_bound height y),
      int (slice_len width x (x + w)), int (slice_len height y (y + h))))"

definition empty_region :: "rect \<Rightarrow> bool" where
  "empty_region = (\<lambda>(x, y, w, h). w = 0 \<or> h = 0)"

text \<open>
  The loop over \<^verbatim>\<open>enumerate(detected_objects)\<close>, from position \<open>idx\<close> on. Subscripting the
  \<^verbatim>\<open>None\<close> of an undecodable image raises \<^verbatim>\<open>TypeError\<close>, and \<^verbatim>\<open>cv2.imwrite\<close> raises
  \<^verbatim>\<open>cv2.error\<close> on an empty crop. The event records the part of the image that is written.
\<close>

fun crop_loop ::
  "image option \<Rightarrow> string \<Rightarrow> string \<Rightarrow> nat \<Rightarrow> rect list \<Rightarrow> string list \<Rightarrow> state
     \<Rightarrow> error + (string list \<times> state)" where
  "crop_loop img image_path image_id idx [] cropped_paths s = Inr (cropped_paths, s)"
| "crop_loop img image_path image_id idx ((x, y, w, h) # objs) cropped_paths s =
     (case img of
        None \<Rightarrow> Inl Type_error
      | Some im \<Rightarrow>
          (case shape im of (height, width, _) \<Rightarrow>
             let cropped = cropped_region width height (x, y, w, h);
                 cropped_filename = image_id @ ''_object_'' @ str_nat (idx + 1) @ ''.png'';
                 cropped_path = path_join unknown_objects_dir cropped_filename
             in if empty_region cropped then Inl Cv2_error
                else crop_loop img image_path image_id (idx + 1) objs
                       (cropped_paths @ [cropped_filename])
                       (s\<lparr>trace := trace s @ [Imwrite cropped_path image_path cropped]\<rparr>)))"

definition save_cropped_objects ::
  "(string \<Rightarrow> image option) \<Rightarrow> string \<Rightarrow> rect list \<Rightarrow> string \<Rightarrow> state
     \<Rightarrow> error + (string list \<times> state)" where
  "save_cropped_objects imread image_path detected_objects image_id s =
     crop_loop (imread image_path) image_path image_id 0 detected_objects [] s"

subsection \<open>\<^verbatim>\<open>process_images\<close>\<close>

text \<open>The four numbers of an annotation line, for an image of the given width and height.\<close>

definition encode ::
  "(rat \<Rightarrow> rat) \<Rightarrow> nat \<Rightarrow> nat \<Rightarrow> rect \<Rightarrow> rat \<times> rat \<times> rat \<times> rat" where
  "encode rnd width height = (\<lambda>(x, y, w, h).
     (float_truediv rnd (float_add rnd (float_of_int rnd x) (int_truediv rnd w 2))
        (float_of_int rnd (int width)),
      float_truediv rnd (float_add rnd (float_of_int rnd y) (int_truediv rnd h 2))
        (float_of_int rnd (int height)),
      int_truediv rnd w (int width),
      int_truediv rnd h (int height)))"

text \<open>
  The loop that writes the annotation file, from position \<open>idx\<close> on. A division by a zero
  width or height raises \<^verbatim>\<open>ZeroDivisionError\<close>.
\<close>

fun annotate ::
  "(rat \<Rightarrow> rat) \<Rightarrow> string \<Rightarrow> string \<Rightarrow> nat \<Rightarrow> nat \<Rightarrow> nat \<Rightarrow> rect list \<Rightarrow> state
     \<Rightarrow> error + state" where
  "annotate rnd image_id annotation_file width height idx [] s = Inr s"
| "annotate rnd image_id annotation_file width height idx (obj # objs) s =
     (if width = 0 \<or> height = 0 then Inl Zero_division_error
      else
        case encode rnd width height obj of (xc, yc, bw, bh) \<Rightarrow>
          let cid = class_counter s;
              line = \<lparr>ann_class_id = cid, ann_x_center = xc, ann_y_center = yc,
                      ann_box_width = bw, ann_box_height = bh\<rparr>
          in annotate rnd image_id annotation_file width height (idx + 1) objs
               (s\<lparr>class_map :=
                    AList.update (image_id @ ''_object_'' @ str_nat (idx + 1)) cid (class_map s),
                  class_counter := class_counter s + 1,
                  trace := trace s @ [Write annotation_file line]\<rparr>))"

text \<open>
  The body of the loop over the files. \<^verbatim>\<open>image.shape\<close> of \<^verbatim>\<open>None\<close> raises
  \<^verbatim>\<open>AttributeError\<close>.
\<close>

definition process_image ::
  "(rat \<Rightarrow> rat) \<Rightarrow> (string \<Rightarrow> image option) \<Rightarrow> string \<Rightarrow> string \<Rightarrow> string \<Rightarrow> state
     \<Rightarrow> error + state" where
  "process_image rnd imread images_dir labels_dir image_file s =
     (let image_path = path_join image_dir image_file;
          image_id = splitext_root image_file
      in case detect_objects imread image_path of
           Inl e \<Rightarrow> Inl e
         | Inr detected_objects \<Rightarrow>
             (if detected_objects = [] then Inr s
              else
                (case save_cropped_objects imread image_path detected_objects image_id s of
                   Inl e \<Rightarrow> Inl e
                 | Inr (cropped_paths, s1) \<Rightarrow>
                     (let s2 = s1\<lparr>trace := trace s1 @ [Copy image_path images_dir]\<rparr>
                      in (case imread image_path of
                            None \<Rightarrow> Inl Attribute_error
                          | Some img \<Rightarrow>
                              (case shape img of (height, width, _) \<Rightarrow>
                                 (let annotation_file =
                                        path_join labels_dir (image_id @ ''.txt'');
                                      s3 = s2\<lparr>trace := trace s2 @ [Open_w annotation_file]\<rparr>
                                  in annotate rnd image_id annotation_file width height 0
                                       detected_objects s3)))))))"

fun process_images ::
  "(rat \<Rightarrow> rat) \<Rightarrow> (string \<Rightarrow> image option) \<Rightarrow> string list \<Rightarrow> string \<Rightarrow> string \<Rightarrow> state
     \<Rightarrow> error + state" where
  "process_images rnd imread [] images_dir labels_dir s = Inr s"
| "process_images rnd imread (image_file # files) images_dir labels_dir s =
     (case process_image rnd imread images_dir labels_dir image_file s of
        Inl e \<Rightarrow> Inl e
      | Inr s' \<Rightarrow> process_images rnd imread files images_dir labels_dir s')"

subsection \<open>The script\<close>

text \<open>The list comprehension over \<^verbatim>\<open>os.listdir(image_dir)\<close>.\<close>

definition image_files :: "string list \<Rightarrow> string list" where
  "image_files listing =
     filter (\<lambda>f. endswith_any f [''.png'', ''.jpg'', ''.jpeg'']) listing"

definition split_index :: "(rat \<Rightarrow> rat) \<Rightarrow> string list \<Rightarrow> int" where
  "split_index rnd files =
     int_of_float (float_mul rnd (float_of_int rnd (int (length files))) split_ratio)"

definition train_files :: "(rat \<Rightarrow> rat) \<Rightarrow> string list \<Rightarrow> string list" where
  "train_files rnd files = slice_to files (split_index rnd files)"

definition val_files :: "(rat \<Rightarrow> rat) \<Rightarrow> string list \<Rightarrow> string list" where
  "val_files rnd files = slice_from files (split_index rnd files)"

text \<open>
  The run, up to the end of the second \<^verbatim>\<open>process_images\<close>: \<open>listing\<close> is what
  \<^verbatim>\<open>os.listdir\<close> returns, and \<open>shuffle\<close> is what \<^verbatim>\<open>random.shuffle\<close> does to the list in
  this run. The result is the state after the training files and the state at the end.
\<close>

definition main ::
  "(rat \<Rightarrow> rat) \<Rightarrow> (string \<Rightarrow> image option) \<Rightarrow> (string list \<Rightarrow> string list) \<Rightarrow> string list
     \<Rightarrow> error + (state \<times> state)" where
  "main rnd imread shuffle listing =
     (let files = shuffle (image_files listing)
      in case process_images rnd imread (train_files rnd files)
                train_images_dir train_labels_dir initial_state of
           Inl e \<Rightarrow> Inl e
         | Inr s1 \<Rightarrow>
             (case process_images rnd imread (val_files rnd files)
                     val_images_dir val_labels_dir s1 of
                Inl e \<Rightarrow> Inl e
              | Inr s2 \<Rightarrow> Inr (s1, s2)))"

subsection \<open>Describing the effects\<close>

text \<open>The annotation line of a region that is given the class id \<open>cid\<close>.\<close>

definition line_of :: "(rat \<Rightarrow> rat) \<Rightarrow> nat \<Rightarrow> nat \<Rightarrow> nat \<Rightarrow> rect \<Rightarrow> annotation" where
  "line_of rnd width height cid obj =
     (case encode rnd width height obj of (xc, yc, bw, bh) \<Rightarrow>
        \<lparr>ann_class_id = cid, ann_x_center = xc, ann_y_center = yc,
         ann_box_width = bw, ann_box_height = bh\<rparr>)"

text \<open>The key of the label map and the crop file of the region at position \<open>n\<close>, from 1.\<close>

definition label_key :: "string \<Rightarrow> nat \<Rightarrow> string" where
  "label_key image_file n = splitext_root image_file @ ''_object_'' @ str_nat n"

definition crop_path :: "string \<Rightarrow> nat \<Rightarrow> string" where
  "crop_path image_file n =
     path_join unknown_objects_dir
       (splitext_root image_file @ ''_object_'' @ str_nat n @ ''.png'')"

text \<open>
  What processing an image with the regions \<open>objs\<close> adds to the trace and to the label
  map, when the counter stands at \<open>c\<close>.
\<close>

definition crop_events :: "string \<Rightarrow> nat \<Rightarrow> nat \<Rightarrow> rect list \<Rightarrow> event list" where
  "crop_events image_file width height objs =
     map (\<lambda>(i, r). Imwrite (crop_path image_file (i + 1)) (path_join image_dir image_file)
                       (cropped_region width height r))
       (enumerate 0 objs)"

definition write_events ::
  "(rat \<Rightarrow> rat) \<Rightarrow> string \<Rightarrow> string \<Rightarrow> nat \<Rightarrow> nat \<Rightarrow> nat \<Rightarrow> rect list \<Rightarrow> event list" where
  "write_events rnd labels_dir image_file width height c objs =
     map (\<lambda>(i, r). Write (path_join labels_dir (splitext_root image_file @ ''.txt''))
                       (line_of rnd width height (c + i) r))
       (enumerate 0 objs)"

definition label_entries ::
  "string \<Rightarrow> nat \<Rightarrow> rect list \<Rightarrow> (string \<times> nat) list \<Rightarrow> (string \<times> nat) list" where
  "label_entries image_file c objs m =
     fold (\<lambda>(i, r) m. AList.update (label_key image_file (i + 1)) (c + i) m)
       (enumerate 0 objs) m"

definition after_image ::
  "(rat \<Rightarrow> rat) \<Rightarrow> string \<Rightarrow> string \<Rightarrow> string \<Rightarrow> nat \<Rightarrow> nat \<Rightarrow> rect list \<Rightarrow> state
     \<Rightarrow> state" where
  "after_image rnd images_dir labels_dir image_file width height objs s =
     s\<lparr>class_map := label_entries image_file (class_counter s) objs (class_map s),
       class_counter := class_counter s + length objs,
       trace := trace s @ crop_events image_file width height objs @
         [Copy (path_join image_dir image_file) images_dir,
          Open_w (path_join labels_dir (splitext_root image_file @ ''.txt''))] @
         write_events rnd labels_dir image_file width height (class_counter s) objs\<rparr>"

text \<open>
  The regions of an image file (none when it cannot be decoded) and their number over a
  list of files.
\<close>

definition regions_of :: "(string \<Rightarrow> image option) \<Rightarrow> string \<Rightarrow> rect list" where
  "regions_of imread image_file =
     (case detect_objects imread (path_join image_dir image_file) of
        Inl e \<Rightarrow> []
      | Inr detected_objects \<Rightarrow> detected_objects)"

definition total_regions :: "(string \<Rightarrow> image option) \<Rightarrow> string list \<Rightarrow> nat" where
  "total_regions imread files = sum_list (map (\<lambda>f. length (regions_of imread f)) files)"

text \<open>
  The class ids of the annotation lines written, and the paths of the crops written, in
  the order of the trace.
\<close>

fun assigned_ids :: "event list \<Rightarrow> nat list" where
  "assigned_ids [] = []"
| "assigned_ids (Write path line # es) = ann_class_id line # assigned_ids es"
| "assigned_ids (_ # es) = assigned_ids es"

fun crop_paths :: "event list \<Rightarrow> string list" where
  "crop_paths [] = []"
| "crop_paths (Imwrite path src r # es) = path # crop_paths es"
| "crop_paths (_ # es) = crop_paths es"

text \<open>
  The crop files and the keys of the label map that a list of image files gives rise to,
  file by file and region by region.
\<close>

definition all_crop_paths :: "(string \<Rightarrow> image option) \<Rightarrow> string list \<Rightarrow> string list" where
  "all_crop_paths imread files =
     concat (map (\<lambda>f. map (crop_path f) [1..<Suc (length (regions_of imread f))]) files)"

definition all_label_keys :: "(string \<Rightarrow> image option) \<Rightarrow> string list \<Rightarrow> string list" where
  "all_label_keys imread files =
     concat (map (\<lambda>f. map (label_key f) [1..<Suc (length (regions_of imread f))]) files)"

text \<open>The annotation lines written, in the order of the trace.\<close>

fun written_lines :: "event list \<Rightarrow> annotation list" where
  "written_lines [] = []"
| "written_lines (Write path line # es) = line # written_lines es"
| "written_lines (_ # es) = written_lines es"

text \<open>The four numbers of a line lie between 0 and 1.\<close>

definition normalized :: "annotation \<Rightarrow> bool" where
  "normalized line \<longleftrightarrow>
     0 \<le> ann_x_center line \<and> ann_x_center line \<le> 1 \<and>
     0 \<le> ann_y_center line \<and> ann_y_center line \<le> 1 \<and>
     0 \<le> ann_box_width line \<and> ann_box_width line \<le> 1 \<and>
     0 \<le> ann_box_height line \<and> ann_box_height line \<le> 1"

text \<open>
  An image as OpenCV holds it has positive dimensions, and its rows and columns are
  counted by 32-bit signed integers.
\<close>

definition cv_dimensions :: "image \<Rightarrow> bool" where
  "cv_dimensions img \<longleftrightarrow>
     (case shape img of (height, width, _) \<Rightarrow>
        0 < height \<and> height < 2 ^ 31 \<and> 0 < width \<and> width < 2 ^ 31)"

text \<open>A rectangle lies within the bounds of an image.\<close>

definition inside :: "image \<Rightarrow> rect \<Rightarrow> bool" where
  "inside img = (\<lambda>(x, y, w, h).
     case shape img of (height, width, _) \<Rightarrow>
       0 \<le> x \<and> 0 \<le> y \<and> x + w \<le> int width \<and> y + h \<le> int height)"

text \<open>
  The claim of a match that ignores case, in the words of the specification: the name,
  with its ASCII capitals turned into small letters as \<^verbatim>\<open>str.lower\<close> does, ends with a
  recognized extension.
\<close>

definition ascii_lower :: "char \<Rightarrow> char" where
  "ascii_lower c =
     (case map_of (zip ''ABCDEFGHIJKLMNOPQRSTUVWXYZ'' ''abcdefghijklmnopqrstuvwxyz'') c of
        None \<Rightarrow> c
      | Some l \<Rightarrow> l)"

definition recognized_ignoring_case :: "string \<Rightarrow> bool" where
  "recognized_ignoring_case f \<longleftrightarrow>
     endswith_any (map ascii_lower f) [''.png'', ''.jpg'', ''.jpeg'']"

text \<open>
  The test of \<^verbatim>\<open>detect.py\<close> on the names of the same directory:
  \<^verbatim>\<open>image_file.lower().endswith(('.png', '.jpg', '.jpeg', '.bmp', '.tiff', '.gif'))\<close>,
  with \<^verbatim>\<open>lower\<close> on ASCII letters.
\<close>

definition detect_accepts :: "string \<Rightarrow> bool" where
  "detect_accepts image_file \<longleftrightarrow>
     endswith_any (map ascii_lower image_file)
       [''.png'', ''.jpg'', ''.jpeg'', ''.bmp'', ''.tiff'', ''.gif'']"

text \<open>
  A rounding on which the theorems about floats are instantiated: to the nearest
  multiple of \<open>1/1024\<close>, a tie going up.
\<close>

definition round_1024 :: "rat \<Rightarrow> rat" where
  "round_1024 q = of_int \<lfloor>q * 1024 + 1 / 2\<rfloor> / 1024"

text \<open>A small directory on which the theorems are instantiated.\<close>

definition example_imread :: "string \<Rightarrow> image option" where
  "example_imread p =
     (if p = ''/content/sample_data/images/a.png'' then
        Some \<lparr>shape = (100, 200, 3),
              contour_rects = [(10, 10, 30, 40), (50, 50, 15, 15), (60, 20, 25, 21)]\<rparr>
      else if p = ''/content/sample_data/images/a.jpg'' then
        Some \<lparr>shape = (50, 50, 3), contour_rects = [(0, 0, 50, 50)]\<rparr>
      else if p = ''/content/sample_data/images/blank.png'' then
        Some \<lparr>shape = (64, 64, 3), contour_rects = [(5, 5, 15, 15)]\<rparr>
      else if p = ''/content/sample_data/images/b.jpeg'' then
        Some \<lparr>shape = (80, 60, 3), contour_rects = [(1, 2, 21, 21), (3, 4, 20, 50)]\<rparr>
      else None)"

section \<open>Properties\<close>

subsection \<open>The loops\<close>

lemma detect_loop_filter:
  "detect_loop contours acc = acc @ filter (\<lambda>(x, y, w, h). w > 20 \<and> h > 20) contours"
  by (induction contours acc rule: detect_loop.induct) simp_all

lemma detect_objects_Some:
  "imread image_path = Some img \<Longrightarrow>
   detect_objects imread image_path =
     Inr (filter (\<lambda>(x, y, w, h). w > 20 \<and> h > 20) (contour_rects img))"
  by (simp add: detect_objects_def detect_loop_filter)

lemma detect_objects_Inr:
  "detect_objects imread image_path = Inr objs \<Longrightarrow> \<exists>img. imread image_path = Some img"
  by (auto simp: detect_objects_def split: option.splits)

lemma enumerate_Suc:
  "enumerate (Suc n) xs = map (\<lambda>(i, r). (Suc i, r)) (enumerate n xs)"
  by (induction xs arbitrary: n) auto

lemma crop_loop_Some:
  assumes "shape img = (height, width, ch)"
  shows "crop_loop (Some img) image_path image_id idx objs cropped_paths s =
     (if \<forall>r \<in> set objs. \<not> empty_region (cropped_region width height r) then
        Inr (cropped_paths @
               map (\<lambda>(i, r). image_id @ ''_object_'' @ str_nat (i + 1) @ ''.png'')
                 (enumerate idx objs),
             s\<lparr>trace := trace s @
               map (\<lambda>(i, r). Imwrite
                      (path_join unknown_objects_dir
                         (image_id @ ''_object_'' @ str_nat (i + 1) @ ''.png''))
                      image_path (cropped_region width height r))
                 (enumerate idx objs)\<rparr>)
      else Inl Cv2_error)"
proof (induction objs arbitrary: idx cropped_paths s)
  case Nil
  then show ?case by simp
next
  case (Cons obj objs)
  obtain x y w h where obj: "obj = (x, y, w, h)" by (cases obj) auto
  show ?case
    unfolding obj by (simp add: Cons.IH assms Let_def)
qed

lemma crop_loop_None:
  "objs \<noteq> [] \<Longrightarrow>
   crop_loop None image_path image_id idx objs cropped_paths s = Inl Type_error"
  by (cases objs) auto

lemma cropped_region_inside:
  assumes "0 \<le> x" "0 \<le> y" "0 < w" "0 < h" "x + w \<le> int width" "y + h \<le> int height"
  shows "cropped_region width height (x, y, w, h) = (x, y, w, h)"
  using assms by (simp add: cropped_region_def slice_len_def slice_bound_def)

lemma annotate_zero:
  "objs \<noteq> [] \<Longrightarrow> width = 0 \<or> height = 0 \<Longrightarrow>
   annotate rnd image_id annotation_file width height idx objs s = Inl Zero_division_error"
  by (cases objs) auto

lemma annotate_pos:
  "0 < width \<Longrightarrow> 0 < height \<Longrightarrow>
   annotate rnd image_id annotation_file width height idx objs s =
     Inr (s\<lparr>class_map :=
              fold (\<lambda>(i, r) m. AList.update (image_id @ ''_object_'' @ str_nat (idx + i + 1))
                                  (class_counter s + i) m)
                (enumerate 0 objs) (class_map s),
            class_counter := class_counter s + length objs,
            trace := trace s @
              map (\<lambda>(i, r). Write annotation_file
                                (line_of rnd width height (class_counter s + i) r))
                (enumerate 0 objs)\<rparr>)"
proof (induction objs arbitrary: idx s)
  case Nil
  then show ?case by simp
next
  case (Cons obj objs)
  have e: "enumerate 0 (obj # objs) = (0, obj) # map (\<lambda>(i, r). (Suc i, r)) (enumerate 0 objs)"
    by (simp add: enumerate_Suc)
  show ?case
    using Cons.prems unfolding e
    by (simp add: Cons.IH Let_def line_of_def fold_map comp_def case_prod_unfold
        split: prod.splits)
qed

subsection \<open>One image\<close>

lemma process_image_regions:
  assumes det: "detect_objects imread (path_join image_dir image_file) = Inr objs"
    and ne: "objs \<noteq> []"
    and img: "imread (path_join image_dir image_file) = Some img"
    and sh: "shape img = (height, width, ch)"
    and pos: "0 < width" "0 < height"
    and crops: "\<forall>r \<in> set objs. \<not> empty_region (cropped_region width height r)"
  shows "process_image rnd imread images_dir labels_dir image_file s =
     Inr (after_image rnd images_dir labels_dir image_file width height objs s)"
  using ne pos crops
  by (simp add: process_image_def det img sh save_cropped_objects_def crop_loop_Some [OF sh]
      annotate_pos Let_def after_image_def crop_events_def write_events_def
      label_entries_def label_key_def crop_path_def)

lemma process_image_Inr:
  assumes det: "detect_objects imread (path_join image_dir image_file) = Inr objs"
    and ne: "objs \<noteq> []"
    and ok: "process_image rnd imread images_dir labels_dir image_file s = Inr s'"
  shows "\<exists>img height width ch. imread (path_join image_dir image_file) = Some img \<and>
           shape img = (height, width, ch) \<and> 0 < width \<and> 0 < height \<and>
           (\<forall>r \<in> set objs. \<not> empty_region (cropped_region width height r))"
proof -
  obtain img where img: "imread (path_join image_dir image_file) = Some img"
    using detect_objects_Inr [OF det] by blast
  obtain height width ch where sh: "shape img = (height, width, ch)"
    by (cases "shape img") auto
  have crops: "\<forall>r \<in> set objs. \<not> empty_region (cropped_region width height r)"
  proof (rule ccontr)
    assume n: "\<not> (\<forall>r \<in> set objs. \<not> empty_region (cropped_region width height r))"
    have cl: "crop_loop (Some img) p i 0 objs [] s = Inl Cv2_error" for p i
      by (simp only: crop_loop_Some [OF sh] n if_False)
    have "process_image rnd imread images_dir labels_dir image_file s = Inl Cv2_error"
      using ne
      by (simp add: process_image_def det img save_cropped_objects_def cl Let_def)
    with ok show False by simp
  qed
  have "0 < width \<and> 0 < height"
  proof (rule ccontr)
    assume "\<not> (0 < width \<and> 0 < height)"
    then have z: "width = 0 \<or> height = 0" by auto
    have "process_image rnd imread images_dir labels_dir image_file s = Inl Zero_division_error"
      using ne crops
      by (simp add: process_image_def det img sh save_cropped_objects_def
          crop_loop_Some [OF sh] annotate_zero [OF _ z] Let_def)
    with ok show False by simp
  qed
  with img sh crops show ?thesis by blast
qed

lemma process_image_InrE:
  assumes ok: "process_image rnd imread images_dir labels_dir image_file s = Inr s'"
  obtains (empty) "regions_of imread image_file = []" "s' = s"
  | (regions) img height width ch where "regions_of imread image_file \<noteq> []"
      "imread (path_join image_dir image_file) = Some img"
      "shape img = (height, width, ch)" "0 < width" "0 < height"
      "s' = after_image rnd images_dir labels_dir image_file width height
              (regions_of imread image_file) s"
      "\<forall>r \<in> set (regions_of imread image_file).
         \<not> empty_region (cropped_region width height r)"
proof -
  obtain objs where det: "detect_objects imread (path_join image_dir image_file) = Inr objs"
    using ok by (cases "detect_objects imread (path_join image_dir image_file)")
      (simp_all add: process_image_def)
  then have reg: "regions_of imread image_file = objs"
    by (simp add: regions_of_def)
  show thesis
  proof (cases "objs = []")
    case True
    then have "s' = s" using ok det by (simp add: process_image_def)
    with True reg show thesis by (intro empty) simp_all
  next
    case False
    obtain img height width ch where
      img: "imread (path_join image_dir image_file) = Some img"
      and sh: "shape img = (height, width, ch)" and pos: "0 < width" "0 < height"
      and crops: "\<forall>r \<in> set objs. \<not> empty_region (cropped_region width height r)"
      using process_image_Inr [OF det False ok] by blast
    have "process_image rnd imread images_dir labels_dir image_file s =
          Inr (after_image rnd images_dir labels_dir image_file width height objs s)"
      by (rule process_image_regions [OF det False img sh pos crops])
    with ok have "s' = after_image rnd images_dir labels_dir image_file width height objs s"
      by simp
    with False img sh pos crops show thesis
      unfolding reg [symmetric] by (intro regions)
  qed
qed

lemma assigned_ids_append: "assigned_ids (xs @ ys) = assigned_ids xs @ assigned_ids ys"
  by (induction xs rule: assigned_ids.induct) simp_all

lemma crop_paths_append: "crop_paths (xs @ ys) = crop_paths xs @ crop_paths ys"
  by (induction xs rule: crop_paths.induct) simp_all

lemma ann_class_id_line_of: "ann_class_id (line_of rnd width height cid obj) = cid"
  by (simp add: line_of_def split: prod.splits)

lemma map_index_enumerate:
  "map (\<lambda>(i, r). g i) (enumerate n xs) = map g [n..<n + length xs]"
proof -
  have "map (\<lambda>(i, r). g i) (enumerate n xs) = map (g \<circ> fst) (enumerate n xs)"
    by (simp add: case_prod_unfold comp_def)
  also have "\<dots> = map g (map fst (enumerate n xs))"
    by (simp only: map_map)
  finally show ?thesis by simp
qed

lemma upt_add_eq: "map (\<lambda>i. c + i) [0..<n] = [c..<c + n]"
  by (induction n) simp_all

lemma assigned_ids_crop_events:
  "assigned_ids (crop_events image_file width height objs) = []"
proof -
  have "assigned_ids (map (\<lambda>(i, r). Imwrite (p i) src (g r)) l) = []"
    for p src g and l :: "(nat \<times> rect) list"
    by (induction l) auto
  then show ?thesis by (simp add: crop_events_def)
qed

lemma crop_paths_write_events:
  "crop_paths (write_events rnd labels_dir image_file width height c objs) = []"
proof -
  have "crop_paths (map (\<lambda>(i, r). Write f (g i r)) l) = []" for f g and l :: "(nat \<times> rect) list"
    by (induction l) auto
  then show ?thesis by (simp add: write_events_def)
qed

lemma crop_paths_crop_events:
  "crop_paths (crop_events image_file width height objs) =
     map (crop_path image_file) [1..<Suc (length objs)]"
proof -
  have "crop_paths (map (\<lambda>(i, r). Imwrite (p i) src (g r)) l) = map (\<lambda>(i, r). p i) l"
    for p src g and l :: "(nat \<times> rect) list"
    by (induction l) auto
  then have "crop_paths (crop_events image_file width height objs) =
      map (\<lambda>(i, r). crop_path image_file (i + 1)) (enumerate 0 objs)"
    by (simp add: crop_events_def)
  also have "\<dots> = map (\<lambda>i. crop_path image_file (Suc i)) [0..<0 + length objs]"
    using map_index_enumerate [of "\<lambda>i. crop_path image_file (Suc i)" 0 objs] by simp
  also have "\<dots> = map (crop_path image_file) (map Suc [0..<length objs])"
    by (simp add: comp_def)
  also have "\<dots> = map (crop_path image_file) [1..<Suc (length objs)]"
    by (simp only: map_Suc_upt One_nat_def)
  finally show ?thesis .
qed

lemma assigned_ids_write_events:
  "assigned_ids (write_events rnd labels_dir image_file width height c objs) =
     [c..<c + length objs]"
proof -
  have "assigned_ids (map (\<lambda>(i, r). Write f (line_of rnd width height (c + i) r)) l) =
     map (\<lambda>(i, r). c + i) l" for f and l :: "(nat \<times> rect) list"
    by (induction l) (auto simp: ann_class_id_line_of)
  then have "assigned_ids (write_events rnd labels_dir image_file width height c objs) =
      map (\<lambda>(i, r). c + i) (enumerate 0 objs)"
    by (simp add: write_events_def)
  also have "\<dots> = map (\<lambda>i. c + i) [0..<0 + length objs]"
    by (rule map_index_enumerate)
  finally show ?thesis by (simp add: upt_add_eq)
qed

lemma fold_update_keys:
  "fst ` set (fold (\<lambda>(i, r) m. AList.update (k i) (v i) m) l m0) =
     fst ` set m0 \<union> (\<lambda>(i, r). k i) ` set l"
proof (induction l arbitrary: m0)
  case Nil
  then show ?case by simp
next
  case (Cons a l)
  obtain i r where a: "a = (i, r)" by (cases a)
  have "fst ` set (fold (\<lambda>(i, r) m. AList.update (k i) (v i) m) (a # l) m0) =
        fst ` set (AList.update (k i) (v i) m0) \<union> (\<lambda>(i, r). k i) ` set l"
    unfolding a by (simp add: Cons.IH)
  also have "\<dots> = ({k i} \<union> fst ` set m0) \<union> (\<lambda>(i, r). k i) ` set l"
    by (simp only: dom_update)
  also have "\<dots> = fst ` set m0 \<union> (\<lambda>(i, r). k i) ` set (a # l)"
    unfolding a by auto
  finally show ?case .
qed

lemma label_entries_keys:
  "fst ` set (label_entries image_file c objs m) =
     fst ` set m \<union> label_key image_file ` {1..length objs}"
proof -
  have "fst ` set (label_entries image_file c objs m) =
      fst ` set m \<union> (\<lambda>(i, r). label_key image_file (i + 1)) ` set (enumerate 0 objs)"
    unfolding label_entries_def by (rule fold_update_keys)
  also have "(\<lambda>(i, r). label_key image_file (i + 1)) ` set (enumerate 0 objs) =
      set (map (\<lambda>(i, r). label_key image_file (i + 1)) (enumerate 0 objs))"
    by (simp only: set_map)
  also have "map (\<lambda>(i, r). label_key image_file (i + 1)) (enumerate 0 objs) =
      map (\<lambda>i. label_key image_file (i + 1)) [0..<0 + length objs]"
    by (rule map_index_enumerate)
  also have "set (map (\<lambda>i. label_key image_file (i + 1)) [0..<0 + length objs]) =
      label_key image_file ` {1..length objs}"
  proof -
    have "label_key image_file ` {1..length objs} =
          label_key image_file ` (Suc ` {0..<length objs})"
      by (simp only: image_Suc_atLeastLessThan One_nat_def atLeastLessThanSuc_atLeastAtMost)
    also have "\<dots> = (\<lambda>i. label_key image_file (i + 1)) ` {0..<length objs}"
      by (simp only: image_image Suc_eq_plus1)
    finally show ?thesis
      by (simp only: set_map set_upt add_0)
  qed
  finally show ?thesis .
qed

lemma label_entries_distinct:
  "distinct (map fst m) \<Longrightarrow> distinct (map fst (label_entries image_file c objs m))"
proof -
  have "distinct (map fst m0) \<Longrightarrow>
     distinct (map fst (fold (\<lambda>(i, r) m. AList.update (k i) (v i) m) l m0))"
    for k :: "nat \<Rightarrow> string" and v :: "nat \<Rightarrow> nat" and l :: "(nat \<times> rect) list" and m0
    by (induction l arbitrary: m0) (auto simp: distinct_update)
  then show "distinct (map fst m) \<Longrightarrow> distinct (map fst (label_entries image_file c objs m))"
    by (simp add: label_entries_def)
qed

lemma process_image_summary:
  assumes ok: "process_image rnd imread images_dir labels_dir image_file s = Inr s'"
  shows "class_counter s' = class_counter s + length (regions_of imread image_file) \<and>
    assigned_ids (trace s') =
      assigned_ids (trace s) @ [class_counter s..<class_counter s'] \<and>
    crop_paths (trace s') =
      crop_paths (trace s) @
      map (crop_path image_file) [1..<Suc (length (regions_of imread image_file))] \<and>
    fst ` set (class_map s') =
      fst ` set (class_map s) \<union>
      label_key image_file ` {1..length (regions_of imread image_file)} \<and>
    (distinct (map fst (class_map s)) \<longrightarrow> distinct (map fst (class_map s')))"
  using ok
proof (cases rule: process_image_InrE)
  case empty
  then show ?thesis by simp
next
  case (regions img height width ch)
  show ?thesis
    unfolding regions(6)
    by (simp add: after_image_def assigned_ids_append assigned_ids_crop_events
        assigned_ids_write_events crop_paths_append crop_paths_crop_events
        crop_paths_write_events label_entries_keys label_entries_distinct)
qed

lemma process_images_summary:
  assumes ok: "process_images rnd imread files images_dir labels_dir s = Inr s'"
  shows "class_counter s' = class_counter s + total_regions imread files \<and>
    assigned_ids (trace s') =
      assigned_ids (trace s) @ [class_counter s..<class_counter s'] \<and>
    crop_paths (trace s') = crop_paths (trace s) @ all_crop_paths imread files \<and>
    fst ` set (class_map s') =
      fst ` set (class_map s) \<union> set (all_label_keys imread files) \<and>
    (distinct (map fst (class_map s)) \<longrightarrow> distinct (map fst (class_map s')))"
  using ok
proof (induction files arbitrary: s)
  case Nil
  then show ?case by (simp add: total_regions_def all_crop_paths_def all_label_keys_def)
next
  case (Cons f files)
  from Cons.prems obtain s1 where
    one: "process_image rnd imread images_dir labels_dir f s = Inr s1"
    and rest: "process_images rnd imread files images_dir labels_dir s1 = Inr s'"
    by (cases "process_image rnd imread images_dir labels_dir f s") simp_all
  note a = process_image_summary [OF one]
  note b = Cons.IH [OF rest]
  have c1: "class_counter s' = class_counter s + total_regions imread (f # files)"
    using a b by (simp add: total_regions_def)
  have le: "class_counter s \<le> class_counter s1" "class_counter s1 \<le> class_counter s'"
    using a b by simp_all
  have "[class_counter s..<class_counter s1] @ [class_counter s1..<class_counter s'] =
        [class_counter s..<class_counter s']"
    using le by (metis le_Suc_ex upt_add_eq_append)
  then have c2: "assigned_ids (trace s') =
      assigned_ids (trace s) @ [class_counter s..<class_counter s']"
    using a b by simp
  have c3: "crop_paths (trace s') = crop_paths (trace s) @ all_crop_paths imread (f # files)"
    using a b by (simp add: all_crop_paths_def)
  have "set (map (label_key f) [1..<Suc (length (regions_of imread f))]) =
        label_key f ` {1..length (regions_of imread f)}"
    by (simp only: set_map set_upt One_nat_def atLeastLessThanSuc_atLeastAtMost)
  then have c4: "fst ` set (class_map s') =
      fst ` set (class_map s) \<union> set (all_label_keys imread (f # files))"
    using a b by (simp add: all_label_keys_def Un_assoc)
  have c5: "distinct (map fst (class_map s)) \<longrightarrow> distinct (map fst (class_map s'))"
    using a b by blast
  from c1 c2 c3 c4 c5 show ?case by blast
qed

subsection \<open>Decimal numbers and keys\<close>

lemma digit_char_inj:
  assumes "d < 10" "e < 10" "digit_char d = digit_char e"
  shows "d = e"
proof -
  have "distinct ''0123456789''" by simp
  moreover have "d < length ''0123456789''" "e < length ''0123456789''"
    using assms by simp_all
  ultimately show ?thesis
    using assms(3) unfolding digit_char_def by (simp only: nth_eq_iff_index_eq)
qed

lemma digit_char_in: "d < 10 \<Longrightarrow> digit_char d \<in> set ''0123456789''"
  unfolding digit_char_def by (rule nth_mem) simp

lemma str_nat_digits: "set (str_nat n) \<subseteq> set ''0123456789''"
proof (induction n rule: str_nat.induct)
  case (1 n)
  show ?case
  proof (cases "n < 10")
    case True
    then show ?thesis
      using digit_char_in [of n] by (subst str_nat.simps) simp
  next
    case False
    have "n mod 10 < 10" by simp
    then show ?thesis
      using False 1 digit_char_in [of "n mod 10"] by (subst str_nat.simps) simp
  qed
qed

lemma str_nat_length: "n \<ge> 10 \<Longrightarrow> length (str_nat n) \<ge> 2"
proof -
  assume n: "n \<ge> 10"
  have "str_nat (n div 10) \<noteq> []"
    by (subst str_nat.simps) simp
  then have "length (str_nat (n div 10)) \<ge> 1"
    by (cases "str_nat (n div 10)") auto
  then show ?thesis
    using n by (subst str_nat.simps) simp
qed

lemma str_nat_small_length: "n < 10 \<Longrightarrow> length (str_nat n) = 1"
  by (subst str_nat.simps) simp

lemma str_nat_inj: "str_nat n = str_nat m \<Longrightarrow> n = m"
proof (induction n arbitrary: m rule: str_nat.induct)
  case (1 n)
  show ?case
  proof (cases "n < 10")
    case True
    note n = this
    show ?thesis
    proof (cases "m < 10")
      case True
      with n "1.prems" have "digit_char n = digit_char m"
        by (simp add: str_nat.simps [of n] str_nat.simps [of m])
      then show ?thesis using n True by (rule digit_char_inj [rotated 2])
    next
      case False
      then have "length (str_nat m) \<ge> 2" by (simp add: str_nat_length)
      moreover have "length (str_nat n) = 1" using n by (rule str_nat_small_length)
      ultimately show ?thesis using "1.prems" by simp
    qed
  next
    case False
    note n = this
    show ?thesis
    proof (cases "m < 10")
      case True
      then have "length (str_nat m) = 1" by (rule str_nat_small_length)
      moreover have "length (str_nat n) \<ge> 2" using n by (simp add: str_nat_length)
      ultimately show ?thesis using "1.prems" by simp
    next
      case False
      from n False "1.prems"
      have eq: "str_nat (n div 10) @ [digit_char (n mod 10)] =
                str_nat (m div 10) @ [digit_char (m mod 10)]"
        by (simp add: str_nat.simps [of n] str_nat.simps [of m])
      then have "str_nat (n div 10) = str_nat (m div 10)"
        and d: "digit_char (n mod 10) = digit_char (m mod 10)"
        by simp_all
      then have "n div 10 = m div 10" using "1.IH" [OF n] by blast
      moreover have "n mod 10 = m mod 10"
        using d by (intro digit_char_inj) simp_all
      ultimately show ?thesis
        by (metis div_mult_mod_eq)
    qed
  qed
qed

lemma split_at_last:
  assumes "xs @ c # ds = ys @ c # es" "c \<notin> set ds" "c \<notin> set es"
  shows "xs = ys \<and> ds = es"
  using assms
  by (auto simp: append_eq_append_conv2 Cons_eq_append_conv append_eq_Cons_conv)

lemma key_inj:
  assumes "id1 @ ''_object_'' @ str_nat n1 = id2 @ ''_object_'' @ str_nat n2"
  shows "id1 = id2 \<and> n1 = n2"
proof -
  have u: "CHR ''_'' \<notin> set (str_nat n)" for n
    using str_nat_digits [of n] by auto
  have "(id1 @ ''_object'') @ CHR ''_'' # str_nat n1 = (id2 @ ''_object'') @ CHR ''_'' # str_nat n2"
    using assms by simp
  from split_at_last [OF this u u] show ?thesis
    by (auto dest: str_nat_inj)
qed

subsection \<open>The whole run\<close>

lemma slice_append: "slice_to xs i @ slice_from xs i = xs"
  by (simp add: slice_to_def slice_from_def)

lemma train_val_files: "train_files rnd files @ val_files rnd files = files"
  by (simp add: train_files_def val_files_def slice_append)

lemma total_regions_append:
  "total_regions imread (xs @ ys) = total_regions imread xs + total_regions imread ys"
  by (simp add: total_regions_def)

lemma all_crop_paths_append:
  "all_crop_paths imread (xs @ ys) = all_crop_paths imread xs @ all_crop_paths imread ys"
  by (simp add: all_crop_paths_def)

lemma all_label_keys_append:
  "all_label_keys imread (xs @ ys) = all_label_keys imread xs @ all_label_keys imread ys"
  by (simp add: all_label_keys_def)

lemma length_all_label_keys:
  "length (all_label_keys imread files) = total_regions imread files"
  by (simp add: all_label_keys_def total_regions_def length_concat comp_def del: upt_Suc)

lemma main_Inr:
  assumes "main rnd imread shuffle listing = Inr (s1, s2)"
  shows "process_images rnd imread (train_files rnd (shuffle (image_files listing)))
           train_images_dir train_labels_dir initial_state = Inr s1 \<and>
         process_images rnd imread (val_files rnd (shuffle (image_files listing)))
           val_images_dir val_labels_dir s1 = Inr s2"
  using assms by (auto simp: main_def Let_def split: sum.splits)

lemma label_key_inj:
  "label_key f n = label_key g m \<Longrightarrow> splitext_root f = splitext_root g \<and> n = m"
  unfolding label_key_def by (rule key_inj)

lemma distinct_all_label_keys:
  assumes "distinct (map splitext_root (filter (\<lambda>f. regions_of imread f \<noteq> []) files))"
  shows "distinct (all_label_keys imread files)"
  using assms
proof (induction files)
  case Nil
  then show ?case by (simp add: all_label_keys_def)
next
  case (Cons f files)
  have tl: "distinct (map splitext_root (filter (\<lambda>f. regions_of imread f \<noteq> []) files))"
    using Cons.prems by (simp split: if_splits)
  have d1: "distinct (map (label_key f) [1..<Suc (length (regions_of imread f))])"
    by (auto simp: distinct_map inj_on_def dest: label_key_inj)
  have d2: "distinct (all_label_keys imread files)"
    using Cons.IH [OF tl] .
  have d3: "set (map (label_key f) [1..<Suc (length (regions_of imread f))]) \<inter>
            set (all_label_keys imread files) = {}"
  proof (rule ccontr)
    assume "\<not> ?thesis"
    then obtain k where k1: "k \<in> set (map (label_key f) [1..<Suc (length (regions_of imread f))])"
      and k2: "k \<in> set (all_label_keys imread files)" by blast
    from k1 obtain n where n: "k = label_key f n" "1 \<le> n" "n \<le> length (regions_of imread f)"
      by auto
    from k2 obtain g m where g: "g \<in> set files" "k = label_key g m" "1 \<le> m"
      "m \<le> length (regions_of imread g)"
      by (auto simp: all_label_keys_def)
    from n g have "splitext_root f = splitext_root g"
      using label_key_inj [of f n g m] by simp
    moreover have "regions_of imread f \<noteq> []" using n by auto
    moreover have "regions_of imread g \<noteq> []" using g by auto
    ultimately show False
      using Cons.prems g(1) by (auto simp: image_iff)
  qed
  have "all_label_keys imread (f # files) =
        map (label_key f) [1..<Suc (length (regions_of imread f))] @ all_label_keys imread files"
    by (simp add: all_label_keys_def)
  with d1 d2 d3 show ?case by (simp only: distinct_append)
qed

lemma main_summary:
  assumes m: "main rnd imread shuffle listing = Inr (s1, s2)"
  shows "class_counter s1 = total_regions imread (train_files rnd (shuffle (image_files listing)))"
    and "class_counter s2 = total_regions imread (shuffle (image_files listing))"
    and "assigned_ids (trace s1) = [0..<class_counter s1]"
    and "assigned_ids (trace s2) = [0..<class_counter s2]"
    and "crop_paths (trace s2) = all_crop_paths imread (shuffle (image_files listing))"
    and "set (map fst (class_map s2)) = set (all_label_keys imread (shuffle (image_files listing)))"
    and "distinct (map fst (class_map s2))"
proof -
  let ?files = "shuffle (image_files listing)"
  note p = main_Inr [OF m]
  note a = process_images_summary [OF p [THEN conjunct1]]
  note b = process_images_summary [OF p [THEN conjunct2]]
  have tv: "total_regions imread ?files =
      total_regions imread (train_files rnd ?files) + total_regions imread (val_files rnd ?files)"
    by (simp only: total_regions_append [symmetric] train_val_files)
  show c1: "class_counter s1 = total_regions imread (train_files rnd ?files)"
    using a by (simp add: initial_state_def)
  show c2: "class_counter s2 = total_regions imread ?files"
    using b c1 tv by simp
  show "assigned_ids (trace s1) = [0..<class_counter s1]"
    using a by (simp add: initial_state_def)
  then show "assigned_ids (trace s2) = [0..<class_counter s2]"
    using b c1 c2 tv by (simp add: upt_add_eq_append [symmetric])
  have "crop_paths (trace s2) =
      all_crop_paths imread (train_files rnd ?files) @ all_crop_paths imread (val_files rnd ?files)"
    using a b by (simp add: initial_state_def)
  then show "crop_paths (trace s2) = all_crop_paths imread ?files"
    by (simp only: all_crop_paths_append [symmetric] train_val_files)
  have "fst ` set (class_map s2) =
      set (all_label_keys imread (train_files rnd ?files)) \<union>
      set (all_label_keys imread (val_files rnd ?files))"
    using a b by (simp add: initial_state_def)
  also have "\<dots> = set (all_label_keys imread (train_files rnd ?files @ val_files rnd ?files))"
    by (simp only: all_label_keys_append set_append)
  finally show "set (map fst (class_map s2)) = set (all_label_keys imread ?files)"
    by (simp only: train_val_files set_map)
  show "distinct (map fst (class_map s2))"
    using a b by (simp add: initial_state_def)
qed

subsection \<open>The region proposer\<close>

text \<open>
  C8. Of the bounding rectangles of the contours of a decoded image, \<^verbatim>\<open>detect_objects\<close>
  returns, in their order, exactly those whose width and height are both greater than
  20: a rectangle of width or height 20 or less is dropped, and an image whose only
  contour has such a rectangle gives no region.
\<close>

theorem detect_objects_size_filter:
  assumes "imread image_path = Some img"
  shows "detect_objects imread image_path =
           Inr (filter (\<lambda>(x, y, w, h). w > 20 \<and> h > 20) (contour_rects img)) \<and>
         (\<forall>objs x y w h. detect_objects imread image_path = Inr objs \<longrightarrow>
            ((x, y, w, h) \<in> set objs \<longleftrightarrow>
               (x, y, w, h) \<in> set (contour_rects img) \<and> w > 20 \<and> h > 20)) \<and>
         (\<forall>x y w h. contour_rects img = [(x, y, w, h)] \<and> (w \<le> 20 \<or> h \<le> 20) \<longrightarrow>
            detect_objects imread image_path = Inr [])"
  using assms by (auto simp: detect_objects_Some)

theorem detect_objects_size_filter_witness:
  "detect_objects example_imread ''/content/sample_data/images/a.png'' =
     Inr [(10, 10, 30, 40), (60, 20, 25, 21)] \<and>
   detect_objects example_imread ''/content/sample_data/images/blank.png'' = Inr []"
proof -
  have a: "example_imread ''/content/sample_data/images/a.png'' =
             Some \<lparr>shape = (100, 200, 3),
                   contour_rects = [(10, 10, 30, 40), (50, 50, 15, 15), (60, 20, 25, 21)]\<rparr>"
    by (simp add: example_imread_def)
  have b: "example_imread ''/content/sample_data/images/blank.png'' =
             Some \<lparr>shape = (64, 64, 3), contour_rects = [(5, 5, 15, 15)]\<rparr>"
    by (simp add: example_imread_def)
  show ?thesis
    using detect_objects_size_filter [of example_imread, OF a]
      detect_objects_size_filter [of example_imread, OF b]
    by simp
qed

text \<open>
  C7. On a file that cannot be decoded \<^verbatim>\<open>detect_objects\<close> raises an error; it does not
  return a list of regions, empty or not.
\<close>

theorem detect_objects_undecodable:
  assumes "imread image_path = None"
  shows "detect_objects imread image_path = Inl Cv2_error \<and>
         (\<forall>objs. detect_objects imread image_path \<noteq> Inr objs)"
  using assms by (simp add: detect_objects_def)

theorem detect_objects_undecodable_witness:
  "example_imread ''/content/sample_data/images/broken.png'' = None \<and>
   detect_objects example_imread ''/content/sample_data/images/broken.png'' = Inl Cv2_error"
proof -
  have n: "example_imread ''/content/sample_data/images/broken.png'' = None"
    by (simp add: example_imread_def)
  show ?thesis
    using n detect_objects_undecodable [of example_imread, OF n] by simp
qed

subsection \<open>Images without regions\<close>

text \<open>
  C5. An image for which \<^verbatim>\<open>detect_objects\<close> returns no region leaves the state as it is:
  no crop is written, the image is not copied, no annotation file is opened, and the
  counter and the label map keep their values. The loop goes on with the next file.
\<close>

theorem process_image_no_regions:
  assumes "detect_objects imread (path_join image_dir image_file) = Inr []"
  shows "process_image rnd imread images_dir labels_dir image_file s = Inr s \<and>
         process_images rnd imread (image_file # files) images_dir labels_dir s =
           process_images rnd imread files images_dir labels_dir s"
  using assms by (simp add: process_image_def)

theorem process_image_no_regions_witness:
  "detect_objects example_imread (path_join image_dir ''blank.png'') = Inr [] \<and>
   process_image (\<lambda>q. q) example_imread train_images_dir train_labels_dir ''blank.png''
     initial_state = Inr initial_state"
proof -
  have d: "detect_objects example_imread (path_join image_dir ''blank.png'') = Inr []"
    by (simp add: detect_objects_def example_imread_def path_join_def image_dir_def)
  show ?thesis
    using d process_image_no_regions [of example_imread, OF d] by simp
qed

subsection \<open>Label ids\<close>


lemma process_image_trace:
  assumes "process_image rnd imread images_dir labels_dir image_file s = Inr s'"
  shows "\<exists>evs. trace s' = trace s @ evs"
  using assms
proof (cases rule: process_image_InrE)
  case empty
  then show ?thesis by simp
next
  case (regions img height width ch)
  show ?thesis unfolding regions(6) by (simp add: after_image_def)
qed

lemma process_images_trace:
  assumes "process_images rnd imread files images_dir labels_dir s = Inr s'"
  shows "\<exists>evs. trace s' = trace s @ evs"
  using assms
proof (induction files arbitrary: s)
  case Nil
  then show ?case by simp
next
  case (Cons f files)
  from Cons.prems obtain s1 where
    one: "process_image rnd imread images_dir labels_dir f s = Inr s1"
    and rest: "process_images rnd imread files images_dir labels_dir s1 = Inr s'"
    by (cases "process_image rnd imread images_dir labels_dir f s") simp_all
  from process_image_trace [OF one] Cons.IH [OF rest] show ?case by auto
qed

text \<open>
  C9. The training files are processed before the validation files, with one counter:
  the ids written for the training images are 0, ..., T - 1 for the T regions of the
  training images, the ids written afterwards for the validation images go on from T,
  and so every id of a training image is less than every id of a validation image.
\<close>

theorem train_ids_below_val_ids:
  assumes "main rnd imread shuffle listing = Inr (s1, s2)"
  shows "\<exists>val_events.
           trace s2 = trace s1 @ val_events \<and>
           assigned_ids (trace s1) =
             [0..<total_regions imread (train_files rnd (shuffle (image_files listing)))] \<and>
           assigned_ids val_events =
             [total_regions imread (train_files rnd (shuffle (image_files listing)))..<
              total_regions imread (shuffle (image_files listing))] \<and>
           (\<forall>i \<in> set (assigned_ids (trace s1)). \<forall>j \<in> set (assigned_ids val_events). i < j)"
proof -
  let ?files = "shuffle (image_files listing)"
  note p = main_Inr [OF assms]
  obtain val_events where v: "trace s2 = trace s1 @ val_events"
    using process_images_trace [OF p [THEN conjunct2]] by blast
  have t1: "assigned_ids (trace s1) = [0..<total_regions imread (train_files rnd ?files)]"
    using main_summary(1,3) [OF assms] by simp
  have "assigned_ids (trace s2) =
      assigned_ids (trace s1) @ [class_counter s1..<class_counter s2]"
    using process_images_summary [OF p [THEN conjunct2]] by simp
  then have "assigned_ids val_events = [class_counter s1..<class_counter s2]"
    unfolding v by (simp add: assigned_ids_append)
  then have t2: "assigned_ids val_events =
      [total_regions imread (train_files rnd ?files)..<total_regions imread ?files]"
    using main_summary(1,2) [OF assms] by simp
  have "\<forall>i \<in> set (assigned_ids (trace s1)). \<forall>j \<in> set (assigned_ids val_events). i < j"
    unfolding t1 t2 by simp
  with v t1 t2 show ?thesis by blast
qed

text \<open>
  C1, as amended. In every run the ids written are 0, 1, ..., T - 1 in this order, for T
  the number of regions detected in all the images, training and validation: they
  increase strictly and no two are equal. The label map has one entry for each key
  \<^verbatim>\<open>{image_id}_object_{N}\<close>, and its size is T when the images with regions have
  different image ids, the image id being the file name without its extension.
\<close>

theorem placeholder_ids_and_label_map:
  assumes "main rnd imread shuffle listing = Inr (s1, s2)"
  shows "assigned_ids (trace s2) =
           [0..<total_regions imread (shuffle (image_files listing))] \<and>
         sorted_wrt (<) (assigned_ids (trace s2)) \<and>
         distinct (assigned_ids (trace s2)) \<and>
         length (class_map s2) =
           card (set (all_label_keys imread (shuffle (image_files listing)))) \<and>
         (distinct (map splitext_root
            (filter (\<lambda>f. regions_of imread f \<noteq> []) (shuffle (image_files listing)))) \<longrightarrow>
          length (class_map s2) = total_regions imread (shuffle (image_files listing)))"
proof -
  let ?files = "shuffle (image_files listing)"
  note s = main_summary [OF assms]
  have ids: "assigned_ids (trace s2) = [0..<total_regions imread ?files]"
    using s(2,4) by simp
  have "length (class_map s2) = length (map fst (class_map s2))" by simp
  also have "\<dots> = card (set (map fst (class_map s2)))"
    using s(7) by (rule distinct_card [symmetric])
  also have "\<dots> = card (set (all_label_keys imread ?files))"
    using s(6) by simp
  finally have len: "length (class_map s2) = card (set (all_label_keys imread ?files))" .
  have "length (class_map s2) = total_regions imread ?files"
    if "distinct (map splitext_root (filter (\<lambda>f. regions_of imread f \<noteq> []) ?files))"
  proof -
    have "distinct (all_label_keys imread ?files)"
      using that by (rule distinct_all_label_keys)
    then have "card (set (all_label_keys imread ?files)) = length (all_label_keys imread ?files)"
      by (rule distinct_card)
    with len show ?thesis by (simp add: length_all_label_keys)
  qed
  with ids len show ?thesis by (simp only: sorted_wrt_upt distinct_upt) simp
qed


theorem train_ids_below_val_ids_witness:
  "\<exists>s1 s2 val_events.
     main id example_imread id [''b.jpeg'', ''a.jpg''] = Inr (s1, s2) \<and>
     trace s2 = trace s1 @ val_events \<and>
     assigned_ids (trace s1) = [0] \<and> assigned_ids val_events = [1]"
proof -
  let ?r = "main id example_imread id [''b.jpeg'', ''a.jpg'']"
  have "\<not> isl ?r" by code_simp
  then obtain s1 s2 where m: "?r = Inr (s1, s2)"
    by (cases ?r) auto
  have t1: "total_regions example_imread (train_files id (id (image_files [''b.jpeg'', ''a.jpg''])))
            = 1"
    by code_simp
  have t2: "total_regions example_imread (id (image_files [''b.jpeg'', ''a.jpg''])) = 2"
    by code_simp
  from train_ids_below_val_ids [OF m] obtain val_events where
    "trace s2 = trace s1 @ val_events" "assigned_ids (trace s1) = [0..<1]"
    "assigned_ids val_events = [1..<2]"
    unfolding t1 t2 by blast
  with m show ?thesis by (simp add: upt_rec)
qed

theorem label_map_size_counterexample:
  "map_sum id (length \<circ> class_map \<circ> snd) (main id example_imread id [''a.png'', ''a.jpg'']) =
     Inr 2 \<and>
   total_regions example_imread (id (image_files [''a.png'', ''a.jpg''])) = 3"
  by code_simp

theorem placeholder_ids_and_label_map_witness:
  "\<exists>s1 s2.
     main id example_imread id [''a.png'', ''blank.png'', ''b.jpeg'', ''notes.txt''] =
       Inr (s1, s2) \<and>
     assigned_ids (trace s2) = [0, 1, 2] \<and> length (class_map s2) = 3"
proof -
  let ?l = "[''a.png'', ''blank.png'', ''b.jpeg'', ''notes.txt'']"
  let ?r = "main id example_imread id ?l"
  have "\<not> isl ?r" by code_simp
  then obtain s1 s2 where m: "?r = Inr (s1, s2)"
    by (cases ?r) auto
  have t: "total_regions example_imread (id (image_files ?l)) = 3"
    by code_simp
  have d: "distinct (map splitext_root
             (filter (\<lambda>f. regions_of example_imread f \<noteq> []) (id (image_files ?l))))"
    by code_simp
  from placeholder_ids_and_label_map [OF m] d
  have "assigned_ids (trace s2) = [0..<3]" "length (class_map s2) = 3"
    unfolding t by simp_all
  with m show ?thesis by (simp add: upt_rec)
qed

subsection \<open>Crops and annotation lines\<close>

lemma crop_path_inj: "crop_path f n = crop_path f m \<Longrightarrow> n = m"
proof -
  assume eq: "crop_path f n = crop_path f m"
  let ?b = "\<lambda>k. splitext_root f @ ''_object_'' @ str_nat k @ ''.png''"
  have hd: "hd (?b n) = hd (?b m)" by (cases "splitext_root f") simp_all
  have "?b n = ?b m"
    using eq hd unfolding crop_path_def path_join_def
    by (simp split: if_splits)
  then have "str_nat n = str_nat m" by simp
  then show "n = m" by (rule str_nat_inj)
qed

lemma distinct_crop_paths: "distinct (map (crop_path f) [1..<Suc n])"
  by (auto simp: distinct_map inj_on_def dest: crop_path_inj)

lemma nth_crop_events:
  "N < length objs \<Longrightarrow>
   crop_events image_file width height objs ! N =
     Imwrite (crop_path image_file (N + 1)) (path_join image_dir image_file)
       (cropped_region width height (objs ! N))"
  by (simp add: crop_events_def nth_enumerate_eq)

lemma nth_write_events:
  "N < length objs \<Longrightarrow>
   write_events rnd labels_dir image_file width height c objs ! N =
     Write (path_join labels_dir (splitext_root image_file @ ''.txt''))
       (line_of rnd width height (c + N) (objs ! N))"
  by (simp add: write_events_def nth_enumerate_eq)

lemma regions_of_Inr:
  "detect_objects imread (path_join image_dir image_file) = Inr objs \<Longrightarrow>
   regions_of imread image_file = objs"
  by (simp add: regions_of_def)

lemma regions_large:
  assumes "(x, y, w, h) \<in> set (regions_of imread image_file)"
  shows "20 < w \<and> 20 < h"
proof (cases "imread (path_join image_dir image_file)")
  case None
  then show ?thesis using assms by (simp add: regions_of_def detect_objects_def)
next
  case (Some img)
  then show ?thesis using assms by (auto simp: regions_of_def detect_objects_Some)
qed

text \<open>
  C3. For an image with at least one region, processing it adds to the trace one crop
  per region, the copy, the opening of the annotation file and one line per region. The
  crops and the lines are as many as the regions, and the crop files are different
  files. For the Nth region (x, y, w, h): the Nth crop is cut from this image into the
  file named with the position N counted from 1, and it is the rectangle (x, y, w, h)
  itself when the region lies inside the image; the Nth line carries the Nth id from the
  counter and the centre ((x + w/2) / width, (y + h/2) / height) and the extent
  (w / width, h / height) of that region, each operation rounded as floats are.
\<close>

theorem annotation_crop_alignment:
  assumes "detect_objects imread (path_join image_dir image_file) = Inr objs"
    and "objs \<noteq> []"
    and "process_image rnd imread images_dir labels_dir image_file s = Inr s'"
  shows "\<exists>crops lines img height width ch.
           imread (path_join image_dir image_file) = Some img \<and>
           shape img = (height, width, ch) \<and>
           trace s' = trace s @ crops @
             [Copy (path_join image_dir image_file) images_dir,
              Open_w (path_join labels_dir (splitext_root image_file @ ''.txt''))] @ lines \<and>
           length crops = length objs \<and> length lines = length objs \<and>
           distinct (crop_paths crops) \<and>
           (\<forall>N < length objs. \<forall>x y w h. objs ! N = (x, y, w, h) \<longrightarrow>
              crops ! N =
                Imwrite
                  (path_join unknown_objects_dir
                     (splitext_root image_file @ ''_object_'' @ str_nat (N + 1) @ ''.png''))
                  (path_join image_dir image_file)
                  (cropped_region width height (x, y, w, h)) \<and>
              (0 \<le> x \<and> 0 \<le> y \<and> x + w \<le> int width \<and> y + h \<le> int height \<longrightarrow>
                 cropped_region width height (x, y, w, h) = (x, y, w, h)) \<and>
              lines ! N =
                Write (path_join labels_dir (splitext_root image_file @ ''.txt''))
                  \<lparr>ann_class_id = class_counter s + N,
                   ann_x_center =
                     rnd (rnd (rnd (of_int x) + rnd (of_int w / 2)) / rnd (of_nat width)),
                   ann_y_center =
                     rnd (rnd (rnd (of_int y) + rnd (of_int h / 2)) / rnd (of_nat height)),
                   ann_box_width = rnd (of_int w / of_nat width),
                   ann_box_height = rnd (of_int h / of_nat height)\<rparr>)"
  using assms(3)
proof (cases rule: process_image_InrE)
  case empty
  with assms(1,2) show ?thesis by (simp add: regions_of_Inr)
next
  case (regions img height width ch)
  note reg = regions_of_Inr [OF assms(1)]
  let ?crops = "crop_events image_file width height objs"
  let ?lines = "write_events rnd labels_dir image_file width height (class_counter s) objs"
  have tr: "trace s' = trace s @ ?crops @
             [Copy (path_join image_dir image_file) images_dir,
              Open_w (path_join labels_dir (splitext_root image_file @ ''.txt''))] @ ?lines"
    unfolding regions(6) reg by (simp add: after_image_def)
  have l1: "length ?crops = length objs" by (simp add: crop_events_def)
  have l2: "length ?lines = length objs" by (simp add: write_events_def)
  have d: "distinct (crop_paths ?crops)"
    by (simp only: crop_paths_crop_events distinct_crop_paths)
  have n: "?crops ! N =
                Imwrite
                  (path_join unknown_objects_dir
                     (splitext_root image_file @ ''_object_'' @ str_nat (N + 1) @ ''.png''))
                  (path_join image_dir image_file)
                  (cropped_region width height (x, y, w, h)) \<and>
              (0 \<le> x \<and> 0 \<le> y \<and> x + w \<le> int width \<and> y + h \<le> int height \<longrightarrow>
                 cropped_region width height (x, y, w, h) = (x, y, w, h)) \<and>
              ?lines ! N =
                Write (path_join labels_dir (splitext_root image_file @ ''.txt''))
                  \<lparr>ann_class_id = class_counter s + N,
                   ann_x_center =
                     rnd (rnd (rnd (of_int x) + rnd (of_int w / 2)) / rnd (of_nat width)),
                   ann_y_center =
                     rnd (rnd (rnd (of_int y) + rnd (of_int h / 2)) / rnd (of_nat height)),
                   ann_box_width = rnd (of_int w / of_nat width),
                   ann_box_height = rnd (of_int h / of_nat height)\<rparr>"
    if N: "N < length objs" and xywh: "objs ! N = (x, y, w, h)" for N x y w h
  proof (intro conjI impI)
    show "?crops ! N =
                Imwrite
                  (path_join unknown_objects_dir
                     (splitext_root image_file @ ''_object_'' @ str_nat (N + 1) @ ''.png''))
                  (path_join image_dir image_file)
                  (cropped_region width height (x, y, w, h))"
      using N by (simp add: nth_crop_events crop_path_def xywh)
    have "(x, y, w, h) \<in> set (regions_of imread image_file)"
      unfolding reg using N xywh by (metis nth_mem)
    then have big: "20 < w \<and> 20 < h" by (rule regions_large)
    show "cropped_region width height (x, y, w, h) = (x, y, w, h)"
      if "0 \<le> x \<and> 0 \<le> y \<and> x + w \<le> int width \<and> y + h \<le> int height"
      using that big by (intro cropped_region_inside) simp_all
    show "?lines ! N =
                Write (path_join labels_dir (splitext_root image_file @ ''.txt''))
                  \<lparr>ann_class_id = class_counter s + N,
                   ann_x_center =
                     rnd (rnd (rnd (of_int x) + rnd (of_int w / 2)) / rnd (of_nat width)),
                   ann_y_center =
                     rnd (rnd (rnd (of_int y) + rnd (of_int h / 2)) / rnd (of_nat height)),
                   ann_box_width = rnd (of_int w / of_nat width),
                   ann_box_height = rnd (of_int h / of_nat height)\<rparr>"
      using N
      by (simp add: nth_write_events xywh line_of_def encode_def float_truediv_def
          float_add_def float_of_int_def int_truediv_def)
  qed
  from regions(2,3) tr l1 l2 d n show ?thesis by blast
qed


theorem annotation_crop_alignment_witness:
  "\<exists>s' crops lines.
     process_image id example_imread train_images_dir train_labels_dir ''a.png''
       initial_state = Inr s' \<and>
     trace s' = crops @
       [Copy ''/content/sample_data/images/a.png'' ''/content/dataset/images/train'',
        Open_w ''/content/dataset/labels/train/a.txt''] @ lines \<and>
     length crops = 2 \<and> length lines = 2 \<and>
     crops ! 1 =
       Imwrite ''/content/dataset/unknown_objects2/a_object_2.png''
         ''/content/sample_data/images/a.png'' (60, 20, 25, 21) \<and>
     lines ! 1 =
       Write ''/content/dataset/labels/train/a.txt''
         \<lparr>ann_class_id = 1, ann_x_center = 29 / 80, ann_y_center = 61 / 200,
          ann_box_width = 1 / 8, ann_box_height = 21 / 100\<rparr>"
proof -
  let ?objs = "[(10, 10, 30, 40), (60, 20, 25, 21)] :: rect list"
  let ?img = "\<lparr>shape = (100, 200, 3),
                contour_rects = [(10, 10, 30, 40), (50, 50, 15, 15), (60, 20, 25, 21)]\<rparr>"
  let ?r = "process_image id example_imread train_images_dir train_labels_dir ''a.png''
              initial_state"
  have p1: "path_join image_dir ''a.png'' = ''/content/sample_data/images/a.png''"
    by code_simp
  have p2: "train_images_dir = ''/content/dataset/images/train''" by code_simp
  have p3: "path_join train_labels_dir (splitext_root ''a.png'' @ ''.txt'') =
            ''/content/dataset/labels/train/a.txt''" by code_simp
  have p4: "path_join unknown_objects_dir
              (splitext_root ''a.png'' @ ''_object_'' @ str_nat (1 + 1) @ ''.png'') =
            ''/content/dataset/unknown_objects2/a_object_2.png''" by code_simp
  have img: "example_imread ''/content/sample_data/images/a.png'' = Some ?img"
    by (simp add: example_imread_def)
  have det: "detect_objects example_imread (path_join image_dir ''a.png'') = Inr ?objs"
    unfolding p1 by (simp add: detect_objects_def img)
  have ne: "?objs \<noteq> []" by simp
  have "\<not> isl ?r" by code_simp
  then obtain s' where ok: "?r = Inr s'" by (cases ?r) auto
  from annotation_crop_alignment [OF det ne ok]
  obtain crops lines im height width ch where
    im: "example_imread (path_join image_dir ''a.png'') = Some im"
    and sh: "shape im = (height, width, ch)"
    and tr: "trace s' = trace initial_state @ crops @
      [Copy (path_join image_dir ''a.png'') train_images_dir,
       Open_w (path_join train_labels_dir (splitext_root ''a.png'' @ ''.txt''))] @ lines"
    and len: "length crops = length ?objs" "length lines = length ?objs"
    and nth: "\<forall>N < length ?objs. \<forall>x y w h. ?objs ! N = (x, y, w, h) \<longrightarrow>
              crops ! N =
                Imwrite
                  (path_join unknown_objects_dir
                     (splitext_root ''a.png'' @ ''_object_'' @ str_nat (N + 1) @ ''.png''))
                  (path_join image_dir ''a.png'')
                  (cropped_region width height (x, y, w, h)) \<and>
              (0 \<le> x \<and> 0 \<le> y \<and> x + w \<le> int width \<and> y + h \<le> int height \<longrightarrow>
                 cropped_region width height (x, y, w, h) = (x, y, w, h)) \<and>
              lines ! N =
                Write (path_join train_labels_dir (splitext_root ''a.png'' @ ''.txt''))
                  \<lparr>ann_class_id = class_counter initial_state + N,
                   ann_x_center =
                     id (id (id (of_int x) + id (of_int w / 2)) / id (of_nat width)),
                   ann_y_center =
                     id (id (id (of_int y) + id (of_int h / 2)) / id (of_nat height)),
                   ann_box_width = id (of_int w / of_nat width),
                   ann_box_height = id (of_int h / of_nat height)\<rparr>"
    by blast
  have "im = ?img" using im unfolding p1 img by simp
  then have hw: "height = 100" "width = 200"
    using sh by simp_all
  have one: "(1::nat) < length ?objs" and at: "?objs ! 1 = (60, 20, 25, 21)" by simp_all
  from nth [rule_format, OF one at]
  have c1: "crops ! 1 =
       Imwrite
         (path_join unknown_objects_dir
            (splitext_root ''a.png'' @ ''_object_'' @ str_nat (1 + 1) @ ''.png''))
         (path_join image_dir ''a.png'') (cropped_region width height (60, 20, 25, 21))"
    and c2: "0 \<le> (60::int) \<and> 0 \<le> (20::int) \<and> 60 + 25 \<le> int width \<and> 20 + 21 \<le> int height \<longrightarrow>
       cropped_region width height (60, 20, 25, 21) = (60, 20, 25, 21)"
    and l1: "lines ! 1 =
       Write (path_join train_labels_dir (splitext_root ''a.png'' @ ''.txt''))
         \<lparr>ann_class_id = class_counter initial_state + 1,
          ann_x_center = id (id (id (of_int 60) + id (of_int 25 / 2)) / id (of_nat width)),
          ann_y_center = id (id (id (of_int 20) + id (of_int 21 / 2)) / id (of_nat height)),
          ann_box_width = id (of_int 25 / of_nat width),
          ann_box_height = id (of_int 21 / of_nat height)\<rparr>"
    by blast+
  have cr: "cropped_region width height (60, 20, 25, 21) = (60, 20, 25, 21)"
    using c2 unfolding hw by simp
  have n1: "crops ! 1 =
       Imwrite ''/content/dataset/unknown_objects2/a_object_2.png''
         ''/content/sample_data/images/a.png'' (60, 20, 25, 21)"
    using c1 unfolding p1 p4 cr .
  have m1: "lines ! 1 =
       Write ''/content/dataset/labels/train/a.txt''
         \<lparr>ann_class_id = 1, ann_x_center = 29 / 80, ann_y_center = 61 / 200,
          ann_box_width = 1 / 8, ann_box_height = 21 / 100\<rparr>"
    using l1 unfolding p3 hw by (simp add: initial_state_def)
  have t: "trace s' = crops @
       [Copy ''/content/sample_data/images/a.png'' ''/content/dataset/images/train'',
        Open_w ''/content/dataset/labels/train/a.txt''] @ lines"
    using tr unfolding p1 p2 p3 by (simp add: initial_state_def)
  have "length crops = 2" "length lines = 2" using len by simp_all
  with t ok n1 m1 show ?thesis by blast
qed

lemma zip_from_one:
  "zip [1..<Suc (length xs)] xs = map (\<lambda>(i, r). (i + 1, r)) (enumerate 0 xs)"
proof -
  have "[1..<Suc (length xs)] = map Suc [0..<length xs]"
    by (simp only: map_Suc_upt One_nat_def)
  then show ?thesis
    by (simp add: enumerate_eq_zip zip_map1)
qed

lemma map_from_one:
  "map (\<lambda>(i, r). g (i + 1)) (enumerate 0 objs) = map g [1..<Suc (length objs)]"
proof -
  have "map (\<lambda>(i, r). g (i + 1)) (enumerate 0 objs) = map (\<lambda>i. g (i + 1)) [0..<0 + length objs]"
    by (rule map_index_enumerate)
  also have "\<dots> = map g (map Suc [0..<length objs])"
    by (simp add: comp_def)
  finally show ?thesis by (simp only: map_Suc_upt One_nat_def)
qed

lemma crop_paths_imwrites:
  "crop_paths (map (\<lambda>(i, r). Imwrite (p i) src (g r)) l) = map (\<lambda>(i, r). p i) l"
  by (induction l) auto

lemma save_cropped_objects_Inr:
  assumes "save_cropped_objects imread image_path objs image_id s = Inr (cropped_paths, s')"
  shows "cropped_paths =
           map (\<lambda>N. image_id @ ''_object_'' @ str_nat N @ ''.png'') [1..<Suc (length objs)] \<and>
         crop_paths (trace s') =
           crop_paths (trace s) @
           map (\<lambda>N. path_join unknown_objects_dir
                        (image_id @ ''_object_'' @ str_nat N @ ''.png''))
             [1..<Suc (length objs)]"
proof (cases "imread image_path")
  case None
  then have "objs = []"
    using assms crop_loop_None [of objs image_path image_id 0 "[]" s]
    by (cases "objs = []") (simp_all add: save_cropped_objects_def)
  then show ?thesis
    using assms by (simp add: save_cropped_objects_def)
next
  case (Some img)
  obtain height width ch where sh: "shape img = (height, width, ch)"
    by (cases "shape img") auto
  note cl = crop_loop_Some [OF sh, of image_path image_id 0 objs "[]" s]
  show ?thesis
  proof (cases "\<forall>r \<in> set objs. \<not> empty_region (cropped_region width height r)")
    case True
    have "crop_loop (Some img) image_path image_id 0 objs [] s =
        Inr ([] @ map (\<lambda>(i, r). image_id @ ''_object_'' @ str_nat (i + 1) @ ''.png'')
                 (enumerate 0 objs),
             s\<lparr>trace := trace s @
               map (\<lambda>(i, r). Imwrite
                      (path_join unknown_objects_dir
                         (image_id @ ''_object_'' @ str_nat (i + 1) @ ''.png''))
                      image_path (cropped_region width height r))
                 (enumerate 0 objs)\<rparr>)"
      unfolding cl using True by simp
    moreover have "crop_loop (Some img) image_path image_id 0 objs [] s =
        Inr (cropped_paths, s')"
      using assms by (simp add: save_cropped_objects_def Some)
    ultimately have cp: "cropped_paths =
          map (\<lambda>(i, r). image_id @ ''_object_'' @ str_nat (i + 1) @ ''.png'')
            (enumerate 0 objs)"
      and s': "s' = s\<lparr>trace := trace s @
               map (\<lambda>(i, r). Imwrite
                      (path_join unknown_objects_dir
                         (image_id @ ''_object_'' @ str_nat (i + 1) @ ''.png''))
                      image_path (cropped_region width height r))
                 (enumerate 0 objs)\<rparr>"
      by simp_all
    have a: "cropped_paths =
          map (\<lambda>N. image_id @ ''_object_'' @ str_nat N @ ''.png'') [1..<Suc (length objs)]"
      unfolding cp by (rule map_from_one)
    have "crop_paths (trace s') =
          crop_paths (trace s) @
          map (\<lambda>(i, r). path_join unknown_objects_dir
                          (image_id @ ''_object_'' @ str_nat (i + 1) @ ''.png''))
            (enumerate 0 objs)"
      unfolding s' by (simp add: crop_paths_append crop_paths_imwrites)
    then have b: "crop_paths (trace s') =
          crop_paths (trace s) @
          map (\<lambda>N. path_join unknown_objects_dir
                       (image_id @ ''_object_'' @ str_nat N @ ''.png''))
            [1..<Suc (length objs)]"
      using map_from_one [of "\<lambda>N. path_join unknown_objects_dir
                       (image_id @ ''_object_'' @ str_nat N @ ''.png'')" objs]
      by simp
    from a b show ?thesis ..
  next
    case False
    then have "save_cropped_objects imread image_path objs image_id s = Inl Cv2_error"
      using cl by (simp only: save_cropped_objects_def Some if_False)
    with assms show ?thesis by simp
  qed
qed

lemma save_cropped_objects_inside:
  assumes img: "imread image_path = Some img" and sh: "shape img = (height, width, ch)"
    and ins: "\<forall>(x, y, w, h) \<in> set objs.
        0 \<le> x \<and> 0 \<le> y \<and> 0 < w \<and> 0 < h \<and> x + w \<le> int width \<and> y + h \<le> int height"
  shows "save_cropped_objects imread image_path objs image_id s =
        Inr (map (\<lambda>N. image_id @ ''_object_'' @ str_nat N @ ''.png'') [1..<Suc (length objs)],
             s\<lparr>trace := trace s @
                map (\<lambda>(N, r). Imwrite
                       (path_join unknown_objects_dir
                          (image_id @ ''_object_'' @ str_nat N @ ''.png''))
                       image_path r)
                  (zip [1..<Suc (length objs)] objs)\<rparr>)"
proof -
  have same: "cropped_region width height r = r" if "r \<in> set objs" for r
  proof -
    obtain x y w h where r: "r = (x, y, w, h)" by (cases r) auto
    with ins that show ?thesis
      unfolding r by (intro cropped_region_inside) auto
  qed
  have ne: "\<forall>r \<in> set objs. \<not> empty_region (cropped_region width height r)"
  proof
    fix r assume r: "r \<in> set objs"
    obtain x y w h where xywh: "r = (x, y, w, h)" by (cases r) auto
    have "0 < w \<and> 0 < h" using ins r xywh by auto
    moreover have "cropped_region width height (x, y, w, h) = (x, y, w, h)"
      using same [OF r] unfolding xywh .
    ultimately show "\<not> empty_region (cropped_region width height r)"
      unfolding xywh by (simp add: empty_region_def)
  qed
  have evs: "map (\<lambda>(i, r). Imwrite
                   (path_join unknown_objects_dir
                      (image_id @ ''_object_'' @ str_nat (i + 1) @ ''.png''))
                   image_path (cropped_region width height r))
              (enumerate 0 objs) =
             map (\<lambda>(N, r). Imwrite
                       (path_join unknown_objects_dir
                          (image_id @ ''_object_'' @ str_nat N @ ''.png''))
                       image_path r)
                  (zip [1..<Suc (length objs)] objs)"
  proof -
    have "map (\<lambda>(i, r). Imwrite
                   (path_join unknown_objects_dir
                      (image_id @ ''_object_'' @ str_nat (i + 1) @ ''.png''))
                   image_path (cropped_region width height r))
              (enumerate 0 objs) =
          map (\<lambda>(i, r). Imwrite
                   (path_join unknown_objects_dir
                      (image_id @ ''_object_'' @ str_nat (i + 1) @ ''.png''))
                   image_path r)
              (enumerate 0 objs)"
    proof (rule map_cong)
      fix p assume p: "p \<in> set (enumerate 0 objs)"
      obtain i r where ir: "p = (i, r)" by (cases p)
      have "r \<in> set objs" using p unfolding ir by (auto simp: in_set_enumerate_eq)
      then show "(case p of (i, r) \<Rightarrow> Imwrite
                   (path_join unknown_objects_dir
                      (image_id @ ''_object_'' @ str_nat (i + 1) @ ''.png''))
                   image_path (cropped_region width height r)) =
          (case p of (i, r) \<Rightarrow> Imwrite
                   (path_join unknown_objects_dir
                      (image_id @ ''_object_'' @ str_nat (i + 1) @ ''.png''))
                   image_path r)"
        unfolding ir by (simp add: same)
    qed simp
    also have "\<dots> = map (\<lambda>(N, r). Imwrite
                       (path_join unknown_objects_dir
                          (image_id @ ''_object_'' @ str_nat N @ ''.png''))
                       image_path r)
                  (zip [1..<Suc (length objs)] objs)"
      by (simp only: zip_from_one map_map) (simp add: comp_def case_prod_unfold)
    finally show ?thesis .
  qed
  have names: "map (\<lambda>(i, r). image_id @ ''_object_'' @ str_nat (i + 1) @ ''.png'')
                 (enumerate 0 objs) =
      map (\<lambda>N. image_id @ ''_object_'' @ str_nat N @ ''.png'') [1..<Suc (length objs)]"
    by (rule map_from_one)
  show ?thesis
    unfolding save_cropped_objects_def img crop_loop_Some [OF sh] evs names
    using ne by (simp del: upt_Suc)
qed


lemma save_cropped_objects_empty_crop:
  "save_cropped_objects example_imread ''/content/sample_data/images/b.jpeg''
     [(1, 2, 21, 21), (100, 0, 30, 30)] ''b'' initial_state = Inl Cv2_error"
  by code_simp

lemma save_cropped_objects_clips:
  "save_cropped_objects example_imread ''/content/sample_data/images/b.jpeg''
     [(50, 70, 30, 30)] ''b'' initial_state =
   Inr ([''b_object_1.png''],
        initial_state\<lparr>trace :=
          [Imwrite ''/content/dataset/unknown_objects2/b_object_1.png''
             ''/content/sample_data/images/b.jpeg'' (50, 70, 10, 10)]\<rparr>)"
  by code_simp

text \<open>
  C10. \<^verbatim>\<open>save_cropped_objects\<close> writes the region at position N, counted from 1, to the
  file \<^verbatim>\<open>{image_id}_object_{N}.png\<close> of the crop directory, whatever the extension of the
  image, and returns these file names in the order of the regions: so does every call
  that returns, and a call on a decoded image returns, with the regions themselves as the
  crops, when the regions are not empty and lie inside the image. Over a whole run the
  crops written are those of all the files, training and validation, one after the other
  in the one directory \<^verbatim>\<open>unknown_objects_dir\<close>.
\<close>

theorem crop_file_names:
  "(save_cropped_objects imread image_path objs image_id s = Inr (cropped_paths, s') \<longrightarrow>
      cropped_paths =
        map (\<lambda>N. image_id @ ''_object_'' @ str_nat N @ ''.png'') [1..<Suc (length objs)] \<and>
      crop_paths (trace s') =
        crop_paths (trace s) @
        map (\<lambda>N. path_join unknown_objects_dir
                     (image_id @ ''_object_'' @ str_nat N @ ''.png''))
          [1..<Suc (length objs)]) \<and>
   (imread image_path = Some img \<and> shape img = (height, width, ch) \<and>
    (\<forall>(x, y, w, h) \<in> set objs.
       0 \<le> x \<and> 0 \<le> y \<and> 0 < w \<and> 0 < h \<and> x + w \<le> int width \<and> y + h \<le> int height) \<longrightarrow>
      save_cropped_objects imread image_path objs image_id s =
        Inr (map (\<lambda>N. image_id @ ''_object_'' @ str_nat N @ ''.png'') [1..<Suc (length objs)],
             s\<lparr>trace := trace s @
                map (\<lambda>(N, r). Imwrite
                       (path_join unknown_objects_dir
                          (image_id @ ''_object_'' @ str_nat N @ ''.png''))
                       image_path r)
                  (zip [1..<Suc (length objs)] objs)\<rparr>)) \<and>
   (main rnd imread shuffle listing = Inr (s1, s2) \<longrightarrow>
      crop_paths (trace s2) =
        concat (map (\<lambda>f. map (\<lambda>N. path_join unknown_objects_dir
                                     (splitext_root f @ ''_object_'' @ str_nat N @ ''.png''))
                            [1..<Suc (length (regions_of imread f))])
                  (shuffle (image_files listing))))"
proof (intro conjI impI)
  assume "save_cropped_objects imread image_path objs image_id s = Inr (cropped_paths, s')"
  from save_cropped_objects_Inr [OF this]
  show "cropped_paths =
        map (\<lambda>N. image_id @ ''_object_'' @ str_nat N @ ''.png'') [1..<Suc (length objs)]"
    and "crop_paths (trace s') =
        crop_paths (trace s) @
        map (\<lambda>N. path_join unknown_objects_dir
                     (image_id @ ''_object_'' @ str_nat N @ ''.png''))
          [1..<Suc (length objs)]"
    by blast+
next
  assume a: "imread image_path = Some img \<and> shape img = (height, width, ch) \<and>
    (\<forall>(x, y, w, h) \<in> set objs.
       0 \<le> x \<and> 0 \<le> y \<and> 0 < w \<and> 0 < h \<and> x + w \<le> int width \<and> y + h \<le> int height)"
  show "save_cropped_objects imread image_path objs image_id s =
        Inr (map (\<lambda>N. image_id @ ''_object_'' @ str_nat N @ ''.png'') [1..<Suc (length objs)],
             s\<lparr>trace := trace s @
                map (\<lambda>(N, r). Imwrite
                       (path_join unknown_objects_dir
                          (image_id @ ''_object_'' @ str_nat N @ ''.png''))
                       image_path r)
                  (zip [1..<Suc (length objs)] objs)\<rparr>)"
  proof (rule save_cropped_objects_inside [of imread image_path img height width ch])
    show "imread image_path = Some img" using a by (rule conjunct1)
    show "shape img = (height, width, ch)" using a by (elim conjE)
    show "\<forall>(x, y, w, h) \<in> set objs.
       0 \<le> x \<and> 0 \<le> y \<and> 0 < w \<and> 0 < h \<and> x + w \<le> int width \<and> y + h \<le> int height"
      using a by (elim conjE)
  qed
next
  assume "main rnd imread shuffle listing = Inr (s1, s2)"
  then have "crop_paths (trace s2) = all_crop_paths imread (shuffle (image_files listing))"
    by (rule main_summary(5))
  moreover have "crop_path f = (\<lambda>N. path_join unknown_objects_dir
                                     (splitext_root f @ ''_object_'' @ str_nat N @ ''.png''))"
    for f by (rule ext) (simp add: crop_path_def)
  ultimately show "crop_paths (trace s2) =
        concat (map (\<lambda>f. map (\<lambda>N. path_join unknown_objects_dir
                                     (splitext_root f @ ''_object_'' @ str_nat N @ ''.png''))
                            [1..<Suc (length (regions_of imread f))])
                  (shuffle (image_files listing)))"
    by (simp only: all_crop_paths_def)
qed

theorem crop_file_names_witness:
  "save_cropped_objects example_imread ''/content/sample_data/images/b.jpeg''
     [(1, 2, 21, 21), (7, 8, 30, 30)] ''b'' initial_state =
     Inr ([''b_object_1.png'', ''b_object_2.png''],
          initial_state\<lparr>trace :=
            [Imwrite ''/content/dataset/unknown_objects2/b_object_1.png''
               ''/content/sample_data/images/b.jpeg'' (1, 2, 21, 21),
             Imwrite ''/content/dataset/unknown_objects2/b_object_2.png''
               ''/content/sample_data/images/b.jpeg'' (7, 8, 30, 30)]\<rparr>) \<and>
   (\<exists>s1 s2. main id example_imread id [''a.jpg'', ''x.gif'', ''b.jpeg''] = Inr (s1, s2) \<and>
      crop_paths (trace s2) =
        [''/content/dataset/unknown_objects2/a_object_1.png'',
         ''/content/dataset/unknown_objects2/b_object_1.png''])"
proof -
  let ?l = "[''a.jpg'', ''x.gif'', ''b.jpeg'']"
  let ?objs = "[(1, 2, 21, 21), (7, 8, 30, 30)] :: rect list"
  let ?img = "\<lparr>shape = (80, 60, 3), contour_rects = [(1, 2, 21, 21), (3, 4, 20, 50)]\<rparr>"
  let ?r = "main id example_imread id ?l"
  have i: "example_imread ''/content/sample_data/images/b.jpeg'' = Some ?img"
    by (simp add: example_imread_def)
  have sh: "shape ?img = (80, 60, 3)" by simp
  have ins: "\<forall>(x, y, w, h) \<in> set ?objs.
       0 \<le> x \<and> 0 \<le> y \<and> 0 < w \<and> 0 < h \<and> x + w \<le> int 60 \<and> y + h \<le> int 80"
    by simp
  have "\<not> isl ?r" by code_simp
  then obtain s1 s2 where m: "?r = Inr (s1, s2)" by (cases ?r) auto
  have e: "concat (map (\<lambda>f. map (\<lambda>N. path_join unknown_objects_dir
                                     (splitext_root f @ ''_object_'' @ str_nat N @ ''.png''))
                            [1..<Suc (length (regions_of example_imread f))])
                  (id (image_files ?l))) =
        [''/content/dataset/unknown_objects2/a_object_1.png'',
         ''/content/dataset/unknown_objects2/b_object_1.png'']"
    by code_simp
  have n: "map (\<lambda>N. ''b'' @ ''_object_'' @ str_nat N @ ''.png'')
             [1..<Suc (length ?objs)] =
           [''b_object_1.png'', ''b_object_2.png'']"
    by code_simp
  have z: "map (\<lambda>(N, r). Imwrite
                       (path_join unknown_objects_dir
                          (''b'' @ ''_object_'' @ str_nat N @ ''.png''))
                       ''/content/sample_data/images/b.jpeg'' r)
                  (zip [1..<Suc (length ?objs)] ?objs) =
           [Imwrite ''/content/dataset/unknown_objects2/b_object_1.png''
               ''/content/sample_data/images/b.jpeg'' (1, 2, 21, 21),
             Imwrite ''/content/dataset/unknown_objects2/b_object_2.png''
               ''/content/sample_data/images/b.jpeg'' (7, 8, 30, 30)]"
    by code_simp
  note t = crop_file_names [of example_imread "''/content/sample_data/images/b.jpeg''"
      ?objs "''b''" initial_state _ _ ?img 80 60 3 id id ?l s1 s2]
  have a: "save_cropped_objects example_imread ''/content/sample_data/images/b.jpeg''
     ?objs ''b'' initial_state =
     Inr ([''b_object_1.png'', ''b_object_2.png''],
          initial_state\<lparr>trace :=
            [Imwrite ''/content/dataset/unknown_objects2/b_object_1.png''
               ''/content/sample_data/images/b.jpeg'' (1, 2, 21, 21),
             Imwrite ''/content/dataset/unknown_objects2/b_object_2.png''
               ''/content/sample_data/images/b.jpeg'' (7, 8, 30, 30)]\<rparr>)"
    using t [THEN conjunct2, THEN conjunct1, rule_format, OF conjI [OF i conjI [OF sh ins]]]
    unfolding n z by (simp add: initial_state_def)
  have b: "crop_paths (trace s2) =
        [''/content/dataset/unknown_objects2/a_object_1.png'',
         ''/content/dataset/unknown_objects2/b_object_1.png'']"
    using t [THEN conjunct2, THEN conjunct2, rule_format, OF m] e by simp
  from a b m show ?thesis by blast
qed

subsection \<open>The corpus enumerator\<close>

text \<open>
  C4. The specification has the extension matched without regard to case, and the loop of
  \<^verbatim>\<open>detect.py\<close> over the same directory matches it so, lower-casing the name first. The
  list comprehension of \<^verbatim>\<open>dataset.py\<close> compares the suffix as it is written: a file
  \<^verbatim>\<open>A.PNG\<close>, which the claim includes and \<^verbatim>\<open>detect.py\<close> takes for an image, is left out
  of the corpus, and so is every name whose extension has a capital letter.
\<close>

theorem image_files_drops_capital_extension:
  "recognized_ignoring_case ''A.PNG'' \<and> detect_accepts ''A.PNG'' \<and>
   image_files [''A.PNG''] = [] \<and>
   image_files [''a.png'', ''A.PNG'', ''b.Jpg'', ''c.jpeg''] = [''a.png'', ''c.jpeg'']"
  by code_simp

subsection \<open>Rounding\<close>

lemma float_like_mono: "float_like rnd \<Longrightarrow> a \<le> b \<Longrightarrow> rnd a \<le> rnd b"
  by (simp add: float_like_def mono_def)

lemma float_like_eighths:
  "float_like rnd \<Longrightarrow> \<bar>k\<bar> \<le> 2 ^ 53 \<Longrightarrow> rnd (of_int k / 8) = of_int k / 8"
  by (simp add: float_like_def)

lemma float_like_int:
  assumes "float_like rnd" "\<bar>n\<bar> \<le> 2 ^ 50"
  shows "rnd (of_int n) = of_int n"
proof -
  have "\<bar>8 * n\<bar> \<le> 2 ^ 53" using assms(2) by simp
  from float_like_eighths [OF assms(1) this] show ?thesis by simp
qed

lemma float_like_round_1024: "float_like round_1024"
  unfolding float_like_def
proof (intro conjI allI impI)
  show "mono round_1024"
  proof (rule monoI)
    fix a b :: rat
    assume "a \<le> b"
    then have "\<lfloor>a * 1024 + 1 / 2\<rfloor> \<le> \<lfloor>b * 1024 + 1 / 2\<rfloor>"
      by (intro floor_mono) simp
    then show "round_1024 a \<le> round_1024 b"
      by (simp add: round_1024_def divide_right_mono)
  qed
next
  fix k :: int
  have "(of_int k / 8 :: rat) * 1024 + 1 / 2 = of_int (128 * k) + 1 / 2"
    by simp
  moreover have "\<lfloor>(of_int (128 * k) :: rat) + 1 / 2\<rfloor> = 128 * k"
    by (rule floor_unique) simp_all
  ultimately have "\<lfloor>(of_int k / 8 :: rat) * 1024 + 1 / 2\<rfloor> = 128 * k"
    by simp
  then show "round_1024 (of_int k / 8) = of_int k / 8"
    by (simp add: round_1024_def)
qed

lemma center_bounds:
  assumes fl: "float_like rnd"
    and x: "0 \<le> x" and w: "0 \<le> w" and xw: "x + w \<le> int W" and W: "0 < W" "W < 2 ^ 31"
  shows "0 \<le> float_truediv rnd (float_add rnd (float_of_int rnd x) (int_truediv rnd w 2))
                (float_of_int rnd (int W))"
    and "float_truediv rnd (float_add rnd (float_of_int rnd x) (int_truediv rnd w 2))
                (float_of_int rnd (int W)) \<le> 1"
    and "0 \<le> int_truediv rnd w (int W)"
    and "int_truediv rnd w (int W) \<le> 1"
proof -
  have Wb: "int W < 2 ^ 31" using W(2) by (simp flip: of_nat_less_iff)
  have r0: "rnd 0 = 0" using float_like_int [OF fl, of 0] by simp
  have r1: "rnd 1 = 1" using float_like_int [OF fl, of 1] by simp
  have rx: "rnd (of_int x) = of_int x"
    using x w xw Wb by (intro float_like_int [OF fl]) simp
  have rw: "rnd (of_int w) = of_int w"
    using x w xw Wb by (intro float_like_int [OF fl]) simp
  have rW: "rnd (of_nat W) = of_nat W"
    using float_like_int [OF fl, of "int W"] Wb by simp
  have Wpos: "(0::rat) < of_nat W" using W(1) by simp
  let ?half = "rnd (of_int w / of_int 2)"
  have h0: "0 \<le> ?half"
    using float_like_mono [OF fl, of 0 "of_int w / of_int 2"] w by (simp add: r0)
  have h1: "?half \<le> of_int w"
    using float_like_mono [OF fl, of "of_int w / of_int 2" "of_int w"] w by (simp add: rw)
  let ?sum = "rnd (of_int x + ?half)"
  have s0: "0 \<le> ?sum"
    using float_like_mono [OF fl, of 0 "of_int x + ?half"] x h0 by (simp add: r0)
  have "of_int x + ?half \<le> (of_nat W :: rat)"
  proof -
    have "of_int x + ?half \<le> (of_int x + of_int w :: rat)" using h1 by simp
    also have "\<dots> = of_int (x + w)" by simp
    also have "\<dots> \<le> of_int (int W)" using xw by (simp only: of_int_le_iff)
    finally show ?thesis by simp
  qed
  then have s1: "?sum \<le> of_nat W"
    using float_like_mono [OF fl, of "of_int x + ?half" "of_nat W"] by (simp add: rW)
  have q0: "0 \<le> ?sum / of_nat W" using s0 Wpos by simp
  have q1: "?sum / of_nat W \<le> 1" using s1 Wpos by simp
  show "0 \<le> float_truediv rnd (float_add rnd (float_of_int rnd x) (int_truediv rnd w 2))
                (float_of_int rnd (int W))"
    using float_like_mono [OF fl q0]
    by (simp add: float_truediv_def float_add_def float_of_int_def int_truediv_def rx rW r0)
  show "float_truediv rnd (float_add rnd (float_of_int rnd x) (int_truediv rnd w 2))
                (float_of_int rnd (int W)) \<le> 1"
    using float_like_mono [OF fl q1]
    by (simp add: float_truediv_def float_add_def float_of_int_def int_truediv_def rx rW r1)
  have e0: "(0::rat) \<le> of_int w / of_nat W" using w Wpos by simp
  have "w \<le> int W" using x xw by simp
  then have "(of_int w :: rat) \<le> of_int (int W)" by (simp only: of_int_le_iff)
  then have e1: "(of_int w :: rat) / of_nat W \<le> 1" using Wpos by simp
  show "0 \<le> int_truediv rnd w (int W)"
    using float_like_mono [OF fl e0] by (simp add: int_truediv_def r0)
  show "int_truediv rnd w (int W) \<le> 1"
    using float_like_mono [OF fl e1] by (simp add: int_truediv_def r1)
qed

subsection \<open>Normalized coordinates\<close>

lemma written_lines_append: "written_lines (xs @ ys) = written_lines xs @ written_lines ys"
  by (induction xs rule: written_lines.induct) simp_all

lemma written_lines_crop_events:
  "written_lines (crop_events image_file width height objs) = []"
proof -
  have "written_lines (map (\<lambda>(i, r). Imwrite (p i) src (g r)) l) = []"
    for p src g and l :: "(nat \<times> rect) list"
    by (induction l) auto
  then show ?thesis by (simp add: crop_events_def)
qed

lemma written_lines_write_events:
  "written_lines (write_events rnd labels_dir image_file width height c objs) =
     map (\<lambda>(i, r). line_of rnd width height (c + i) r) (enumerate 0 objs)"
proof -
  have "written_lines (map (\<lambda>(i, r). Write f (g i r)) l) = map (\<lambda>(i, r). g i r) l"
    for f g and l :: "(nat \<times> rect) list"
    by (induction l) auto
  then show ?thesis by (simp add: write_events_def)
qed

lemma normalized_line_of:
  assumes "float_like rnd"
    and "0 < width" "width < 2 ^ 31" "0 < height" "height < 2 ^ 31"
    and "0 \<le> x" "0 \<le> y" "0 \<le> w" "0 \<le> h" "x + w \<le> int width" "y + h \<le> int height"
  shows "normalized (line_of rnd width height cid (x, y, w, h))"
  using center_bounds [OF assms(1) assms(6) assms(8) assms(10) assms(2) assms(3)]
    center_bounds [OF assms(1) assms(7) assms(9) assms(11) assms(4) assms(5)]
  by (simp add: normalized_def line_of_def encode_def)

text \<open>
  C2. When the regions of an image lie within its bounds, every annotation line written
  for it has its centre and its extent between 0 and 1, and there is one such line for
  each region. The numbers are Python floats: the bounds hold for every rounding that is
  monotone and exact on the small multiples of 1/8, as the rounding of binary64 is, and
  for the dimensions that an OpenCV image can have.
\<close>

theorem annotation_lines_normalized:
  assumes "float_like rnd"
    and "process_image rnd imread images_dir labels_dir image_file s = Inr s'"
    and "imread (path_join image_dir image_file) = Some img"
    and "cv_dimensions img"
    and "\<forall>r \<in> set (regions_of imread image_file). inside img r"
  shows "\<exists>evs. trace s' = trace s @ evs \<and>
           length (written_lines evs) = length (regions_of imread image_file) \<and>
           (\<forall>line \<in> set (written_lines evs). normalized line)"
  using assms(2)
proof (cases rule: process_image_InrE)
  case empty
  then show ?thesis by simp
next
  case (regions img' height width ch)
  let ?objs = "regions_of imread image_file"
  let ?evs = "crop_events image_file width height ?objs @
         [Copy (path_join image_dir image_file) images_dir,
          Open_w (path_join labels_dir (splitext_root image_file @ ''.txt''))] @
         write_events rnd labels_dir image_file width height (class_counter s) ?objs"
  have img': "img' = img" using regions(2) assms(3) by simp
  have dims: "0 < width" "width < 2 ^ 31" "0 < height" "height < 2 ^ 31"
    using assms(4) regions(3) unfolding img' by (simp_all add: cv_dimensions_def)
  have tr: "trace s' = trace s @ ?evs"
    unfolding regions(6) by (simp add: after_image_def)
  have wl: "written_lines ?evs =
      map (\<lambda>(i, r). line_of rnd width height (class_counter s + i) r) (enumerate 0 ?objs)"
    by (simp add: written_lines_append written_lines_crop_events written_lines_write_events)
  have len: "length (written_lines ?evs) = length ?objs"
    unfolding wl by simp
  have "normalized line" if "line \<in> set (written_lines ?evs)" for line
  proof -
    from that obtain i r where ir: "(i, r) \<in> set (enumerate 0 ?objs)"
      and line: "line = line_of rnd width height (class_counter s + i) r"
      unfolding wl by auto
    from ir have r: "r \<in> set ?objs" by (auto simp: in_set_enumerate_eq)
    obtain x y w h where xywh: "r = (x, y, w, h)" by (cases r) auto
    have big: "20 < w \<and> 20 < h" using r regions_large unfolding xywh by blast
    have "inside img r" using assms(5) r by blast
    then have "0 \<le> x" "0 \<le> y" "x + w \<le> int width" "y + h \<le> int height"
      using regions(3) unfolding img' xywh by (simp_all add: inside_def)
    then show ?thesis
      unfolding line xywh using big dims
      by (intro normalized_line_of [OF assms(1)]) simp_all
  qed
  with tr len show ?thesis by blast
qed

theorem annotation_lines_normalized_witness:
  "\<exists>s' evs.
     process_image round_1024 example_imread train_images_dir train_labels_dir ''a.png''
       initial_state = Inr s' \<and>
     trace s' = evs \<and> length (written_lines evs) = 2 \<and>
     list_all normalized (written_lines evs)"
proof -
  let ?img = "\<lparr>shape = (100, 200, 3),
                contour_rects = [(10, 10, 30, 40), (50, 50, 15, 15), (60, 20, 25, 21)]\<rparr>"
  let ?objs = "[(10, 10, 30, 40), (60, 20, 25, 21)] :: rect list"
  have img: "example_imread (path_join image_dir ''a.png'') = Some ?img"
    by (simp add: example_imread_def path_join_def image_dir_def)
  have det: "detect_objects example_imread (path_join image_dir ''a.png'') = Inr ?objs"
    by (simp add: detect_objects_def img)
  have reg: "regions_of example_imread ''a.png'' = ?objs"
    using det by (rule regions_of_Inr)
  have ok: "process_image round_1024 example_imread train_images_dir train_labels_dir
              ''a.png'' initial_state =
            Inr (after_image round_1024 train_images_dir train_labels_dir ''a.png'' 200 100
                   ?objs initial_state)"
    by (rule process_image_regions [OF det _ img])
      (simp_all add: empty_region_def cropped_region_def slice_len_def slice_bound_def)
  have dims: "cv_dimensions ?img" by (simp add: cv_dimensions_def)
  have ins: "\<forall>r \<in> set (regions_of example_imread ''a.png''). inside ?img r"
    unfolding reg by (simp add: inside_def)
  from annotation_lines_normalized [OF float_like_round_1024 ok img dims ins]
  obtain evs where
    "trace (after_image round_1024 train_images_dir train_labels_dir ''a.png'' 200 100
       ?objs initial_state) = trace initial_state @ evs"
    "length (written_lines evs) = length (regions_of example_imread ''a.png'')"
    "\<forall>line \<in> set (written_lines evs). normalized line"
    by blast
  then have
    "trace (after_image round_1024 train_images_dir train_labels_dir ''a.png'' 200 100
       ?objs initial_state) = evs"
    "length (written_lines evs) = 2"
    "list_all normalized (written_lines evs)"
    unfolding reg by (simp_all add: initial_state_def list_all_iff)
  with ok show ?thesis by blast
qed

subsection \<open>The split\<close>

lemma split_ratio_eq: "split_ratio = 4 / 5 + 1 / 22517998136852480"
  by (simp add: split_ratio_def)

lemma split_index_value:
  assumes fl: "float_like rnd" and len: "length files \<le> 2 ^ 49"
  shows "split_index rnd files = 4 * int (length files) div 5"
proof -
  define n where "n = int (length files)"
  define k where "k = 4 * n div 5"
  define q where "q = (of_int n :: rat) * split_ratio"
  have n0: "0 \<le> n" and n1: "n \<le> 2 ^ 49"
    using len unfolding n_def by (simp_all flip: of_nat_le_iff)
  have k0: "0 \<le> k" and k1: "5 * k \<le> 4 * n" and k2: "4 * n \<le> 5 * k + 4"
    using n0 unfolding k_def by simp_all
  have kn: "k \<le> n" using k1 n0 by simp
  have rn: "rnd (of_int n) = of_int n"
    using n0 n1 by (intro float_like_int [OF fl]) simp
  have rk: "rnd (of_int k) = of_int k"
    using k0 kn n1 by (intro float_like_int [OF fl]) simp
  have "\<bar>8 * k + 7\<bar> \<le> 2 ^ 53" using k0 kn n1 by simp
  from float_like_eighths [OF fl this]
  have rk7: "rnd (of_int k + 7 / 8) = of_int k + 7 / 8"
    by (simp add: add_divide_distrib)
  have R0: "(0::rat) \<le> of_int n" using n0 by simp
  have "(of_int n :: rat) \<le> of_int (2 ^ 49)"
    using n1 by (simp only: of_int_le_iff)
  then have R1: "(of_int n :: rat) \<le> 562949953421312" by simp
  have "(of_int (5 * k) :: rat) \<le> of_int (4 * n)"
    using k1 by (simp only: of_int_le_iff)
  then have R2: "5 * (of_int k :: rat) \<le> 4 * of_int n" by simp
  have "(of_int (4 * n) :: rat) \<le> of_int (5 * k + 4)"
    using k2 by (simp only: of_int_le_iff)
  then have R3: "4 * (of_int n :: rat) \<le> 5 * of_int k + 4" by simp
  have K0: "(0::rat) \<le> of_int k" using k0 by simp
  have qeq: "q = 4 / 5 * of_int n + of_int n / 22517998136852480"
    unfolding q_def split_ratio_eq by (simp add: algebra_simps)
  have lo: "of_int k \<le> q"
    unfolding qeq using R0 R2 by linarith
  have hi: "q \<le> of_int k + 7 / 8"
    unfolding qeq using R1 R3 by linarith
  have a: "of_int k \<le> rnd q"
    using float_like_mono [OF fl lo] by (simp add: rk)
  have b: "rnd q \<le> of_int k + 7 / 8"
    using float_like_mono [OF fl hi] by (simp add: rk7)
  have "\<lfloor>rnd q\<rfloor> = k"
    using a b by (intro floor_unique) simp_all
  moreover have "0 \<le> rnd q" using a K0 by linarith
  ultimately have "int_of_float (rnd q) = k"
    by (simp add: int_of_float_def)
  then show ?thesis
    unfolding split_index_def float_mul_def float_of_int_def q_def k_def n_def [symmetric] rn .
qed

lemma floor_four_fifths: "\<lfloor>(4 / 5 :: rat) * of_nat n\<rfloor> = 4 * int n div 5"
proof -
  have "(4 / 5 :: rat) * of_nat n = of_int (4 * int n) / of_int 5" by simp
  then show ?thesis by (simp only: floor_divide_of_int_eq)
qed

text \<open>
  C6. For a list of N files the split index is \<open>floor (0.8 N)\<close>: the first
  \<open>floor (0.8 N)\<close> files of the shuffled list are the training files and the other
  \<open>N - floor (0.8 N)\<close> are the validation files. The index is computed in floats from N
  alone, before any image is read, and a run processes exactly these two lists, in this
  order. The list is one that fits in memory (at most \<open>2^49\<close> names).
\<close>

theorem split_first_four_fifths:
  assumes "float_like rnd" and "length files \<le> 2 ^ 49"
  shows "split_index rnd files = \<lfloor>(4 / 5 :: rat) * of_nat (length files)\<rfloor> \<and>
         train_files rnd files = take (nat \<lfloor>(4 / 5 :: rat) * of_nat (length files)\<rfloor>) files \<and>
         val_files rnd files = drop (nat \<lfloor>(4 / 5 :: rat) * of_nat (length files)\<rfloor>) files \<and>
         length (train_files rnd files) = nat \<lfloor>(4 / 5 :: rat) * of_nat (length files)\<rfloor> \<and>
         length (val_files rnd files) =
           length files - nat \<lfloor>(4 / 5 :: rat) * of_nat (length files)\<rfloor> \<and>
         (files = shuffle (image_files listing) \<and>
          main rnd imread shuffle listing = Inr (s1, s2) \<longrightarrow>
            process_images rnd imread
              (take (nat \<lfloor>(4 / 5 :: rat) * of_nat (length files)\<rfloor>) files)
              train_images_dir train_labels_dir initial_state = Inr s1 \<and>
            process_images rnd imread
              (drop (nat \<lfloor>(4 / 5 :: rat) * of_nat (length files)\<rfloor>) files)
              val_images_dir val_labels_dir s1 = Inr s2)"
proof -
  let ?k = "nat \<lfloor>(4 / 5 :: rat) * of_nat (length files)\<rfloor>"
  have si: "split_index rnd files = \<lfloor>(4 / 5 :: rat) * of_nat (length files)\<rfloor>"
    using split_index_value [OF assms] by (simp only: floor_four_fifths)
  have k0: "0 \<le> \<lfloor>(4 / 5 :: rat) * of_nat (length files)\<rfloor>"
    by (simp only: floor_four_fifths)
  have kn: "?k \<le> length files"
    by (simp only: floor_four_fifths)
  have sb: "slice_bound (length files) (split_index rnd files) = ?k"
    unfolding si slice_bound_def using k0 kn by simp
  have tf: "train_files rnd files = take ?k files"
    by (simp add: train_files_def slice_to_def sb)
  have vf: "val_files rnd files = drop ?k files"
    by (simp add: val_files_def slice_from_def sb)
  have lt: "length (train_files rnd files) = ?k"
    unfolding tf using kn by simp
  have lv: "length (val_files rnd files) = length files - ?k"
    unfolding vf by simp
  have "process_images rnd imread (take ?k files)
              train_images_dir train_labels_dir initial_state = Inr s1 \<and>
        process_images rnd imread (drop ?k files)
              val_images_dir val_labels_dir s1 = Inr s2"
    if "files = shuffle (image_files listing)"
      and "main rnd imread shuffle listing = Inr (s1, s2)"
    using main_Inr [OF that(2)] tf vf unfolding that(1) [symmetric] by simp
  with si tf vf lt lv show ?thesis by blast
qed

theorem split_first_four_fifths_witness:
  "train_files round_1024 [''a.png'', ''b.png'', ''c.png'', ''d.png'', ''e.png''] =
     [''a.png'', ''b.png'', ''c.png'', ''d.png''] \<and>
   val_files round_1024 [''a.png'', ''b.png'', ''c.png'', ''d.png'', ''e.png''] = [''e.png''] \<and>
   split_index round_1024 [''a.png'', ''b.png'', ''c.png'', ''d.png'', ''e.png''] = 4 \<and>
   main round_1024 example_imread rev [''blank.png'', ''notes.txt''] =
     Inr (initial_state, initial_state)"
proof -
  let ?files = "[''a.png'', ''b.png'', ''c.png'', ''d.png'', ''e.png'']"
  let ?l = "[''blank.png'', ''notes.txt'']"
  let ?shuffled = "[''blank.png'']"
  have len: "length ?files \<le> 2 ^ 49" by simp
  have k: "\<lfloor>(4 / 5 :: rat) * of_nat (length ?files)\<rfloor> = 4" by simp
  note a = split_first_four_fifths [OF float_like_round_1024 len, of id "[]"
      example_imread initial_state initial_state, unfolded k]
  have len': "length ?shuffled \<le> 2 ^ 49" by simp
  have k': "\<lfloor>(4 / 5 :: rat) * of_nat (length ?shuffled)\<rfloor> = 0"
    by (simp only: floor_four_fifths) simp
  have sh: "?shuffled = rev (image_files ?l)" by code_simp
  have d: "detect_objects example_imread (path_join image_dir ''blank.png'') = Inr []"
    by (simp add: detect_objects_def example_imread_def path_join_def image_dir_def)
  have p: "process_image round_1024 example_imread dir1 dir2 ''blank.png'' initial_state =
           Inr initial_state" for dir1 dir2
    by (simp add: process_image_def d)
  have m: "main round_1024 example_imread rev ?l = Inr (initial_state, initial_state)"
    unfolding main_def Let_def sh [symmetric]
      split_first_four_fifths [OF float_like_round_1024 len', THEN conjunct2, THEN conjunct1]
      split_first_four_fifths [OF float_like_round_1024 len', THEN conjunct2, THEN conjunct2,
        THEN conjunct1]
      k'
    by (simp add: p)
  from a m show ?thesis by simp
qed

end
